theory Spec2Isabelle
  imports Main "HOL-Library.Word" "HOL-Library.Multiset" "HOL-Library.Sublist"
begin

section \<open>The tabbed error notebook of mothership-gui (EdsacErrorNotebook.c)\<close>

text \<open>
  The development embeds the functions of \<^verbatim>\<open>src/EdsacErrorNotebook.c\<close> that keep the
  list of open tabs: the comparison of Clickables, the lookup functions on the open-tabs list,
  the construction and update of a LinkyBuffer, opening, closing and counting. Pointers that
  the code tests against NULL are options, a failed \<^verbatim>\<open>assert\<close>, a NULL dereference and
  \<^verbatim>\<open>exit(EXIT_FAILURE)\<close> are error values, and the GTK widgets are reduced to the state
  the code reads back from them.
\<close>

subsection \<open>Data\<close>

text \<open>
  Modelled from the spec: the declarations of \<^verbatim>\<open>Clickable\<close> and \<^verbatim>\<open>SearchResult\<close> live in
  \<^verbatim>\<open>sql.h\<close>, which is not among the sources. The spec gives the tagged union
  ALL / RACK / CHASSIS / VALVE and the record fields; the field names are the ones the code
  uses. The tag is a C enum, so a value outside the four named ones can be stored in it:
  \<open>OTHER n\<close> stands for such a value (the \<^verbatim>\<open>default\<close> branch of the title switch). The source's \<^verbatim>\<open>ALL\<close> is written
  \<open>ALL_T\<close>, the plain name being HOL's quantifier syntax.
  The numeric fields are 32-bit; the code compares them with \<^verbatim>\<open>==\<close> (also against
  \<^verbatim>\<open>unsigned int\<close> arguments, which compares the bit patterns) and prints them with
  \<^verbatim>\<open>%i\<close> (the signed reading).
\<close>

datatype ClickableType = ALL_T | RACK | CHASSIS | VALVE | OTHER nat

record Clickable =
  type :: ClickableType
  rack_num :: "32 word"
  chassis_num :: "32 word"
  valve_num :: "32 word"

record SearchResult =
  rack_no :: "32 word"
  chassis_no :: "32 word"
  valve_no :: "32 word"
  message :: string
  enabled :: bool
  error_id :: nat

text \<open>What stops a call: a failed \<^verbatim>\<open>assert\<close>, a dereferenced NULL pointer, or
  \<^verbatim>\<open>exit(EXIT_FAILURE)\<close>.\<close>

datatype error = AssertionFailed | NullDereference | ExitFailure

subsection \<open>Comparing Clickables\<close>

text \<open>\<^verbatim>\<open>clickable_compare\<close> (lines 269-297). Both pointers are asserted non-NULL. The
  third flag is named \<^verbatim>\<open>valve_num\<close> in the source and is computed from the
  \<^verbatim>\<open>chassis_num\<close> fields.\<close>

definition clickable_compare :: "Clickable option \<Rightarrow> Clickable option \<Rightarrow> error + bool" where
  "clickable_compare a' b' =
     (case a' of None \<Rightarrow> Inl AssertionFailed | Some a \<Rightarrow>
     (case b' of None \<Rightarrow> Inl AssertionFailed | Some b \<Rightarrow>
        if type a \<noteq> type b then Inr False
        else if ALL_T = type a then Inr True
        else let rack_num_eq = (rack_num a = rack_num b) in
          if RACK = type a \<and> rack_num_eq then Inr True
          else let chassis_num_eq = (chassis_num a = chassis_num b) in
            if CHASSIS = type a \<and> rack_num_eq \<and> chassis_num_eq then Inr True
            else let valve_num_eq = (chassis_num a = chassis_num b) in
              if VALVE = type a \<and> rack_num_eq \<and> chassis_num_eq \<and> valve_num_eq then Inr True
              else Inr False))"

subsection \<open>Printing numbers\<close>

text \<open>The conversion \<^verbatim>\<open>%i\<close> of \<^verbatim>\<open>printf\<close>: the signed decimal rendering of a
  32-bit value, with a minus sign for negative values and no padding.\<close>

definition digit_char :: "nat \<Rightarrow> char" where
  "digit_char d = ''0123456789'' ! d"

fun string_of_nat :: "nat \<Rightarrow> string" where
  "string_of_nat n =
     (if n < 10 then [digit_char n]
      else string_of_nat (n div 10) @ [digit_char (n mod 10)])"

declare string_of_nat.simps [simp del]

definition printf_i :: "32 word \<Rightarrow> string" where
  "printf_i w =
     (if sint w < 0 then CHR ''-'' # string_of_nat (nat (- sint w))
      else string_of_nat (nat (sint w)))"

subsection \<open>Text buffers\<close>

text \<open>
  A \<^verbatim>\<open>GtkTextBuffer\<close> is reduced to its characters and the list of tagged ranges, in the
  order in which the tags were applied. A tag is the un-editable tag of
  \<^verbatim>\<open>new_linky_buffer\<close>, a link made by \<^verbatim>\<open>add_link\<close> (it carries the Clickable handed to
  \<^verbatim>\<open>link_clicked\<close>), or the description tag of a row (whether it is greyed out, and the
  error id handed to \<^verbatim>\<open>desc_clicked\<close>). The GTK functions follow the GTK 3 reference:
  an iterator at an offset beyond the end is the end iterator, applying a tag to an empty
  range does nothing, and deleting the text removes the ranges over it. Offsets count
  characters; the rows are taken to be ASCII, where the byte length of the
  \<^verbatim>\<open>GString\<close> is the number of characters.
\<close>

datatype TextTag = UnEditable | Link Clickable | Description bool nat

record GtkTextBuffer =
  contents :: string
  applied :: "(TextTag \<times> nat \<times> nat) list"

definition gtk_text_buffer_new :: GtkTextBuffer where
  "gtk_text_buffer_new = \<lparr>contents = [], applied = []\<rparr>"

definition gtk_text_buffer_get_end_offset :: "GtkTextBuffer \<Rightarrow> nat" where
  "gtk_text_buffer_get_end_offset b = length (contents b)"

definition gtk_text_buffer_get_iter_at_offset :: "GtkTextBuffer \<Rightarrow> nat \<Rightarrow> nat" where
  "gtk_text_buffer_get_iter_at_offset b n = min n (length (contents b))"

definition gtk_text_buffer_apply_tag :: "GtkTextBuffer \<Rightarrow> TextTag \<Rightarrow> nat \<Rightarrow> nat \<Rightarrow> GtkTextBuffer" where
  "gtk_text_buffer_apply_tag b tag start end' =
     (if start = end' then b
      else b\<lparr>applied := applied b @ [(tag, min start end', max start end')]\<rparr>)"

definition gtk_text_buffer_insert_at_end :: "GtkTextBuffer \<Rightarrow> string \<Rightarrow> GtkTextBuffer" where
  "gtk_text_buffer_insert_at_end b str = b\<lparr>contents := contents b @ str\<rparr>"

definition gtk_text_buffer_delete_all :: "GtkTextBuffer \<Rightarrow> GtkTextBuffer" where
  "gtk_text_buffer_delete_all b = b\<lparr>contents := [], applied := []\<rparr>"

subsection \<open>LinkyBuffer: the context of an open tab\<close>

record LinkyBuffer =
  description :: Clickable
  buffer :: GtkTextBuffer
  g_string_list :: "string list"
  clickables :: "Clickable list"
  page_id :: int
  title :: string

text \<open>
  \<^verbatim>\<open>page_id\<close> is a \<^verbatim>\<open>gint\<close>; its values are GTK page numbers or \<open>-1\<close>, between \<open>-1\<close>
  and the number of pages, so the 32-bit range plays no role and the field is an \<open>int\<close>.

  \<^verbatim>\<open>malloc\<close> hands out memory whose content is not determined, and the code sets only some
  fields of the Clickables it allocates. The content of each fresh block is therefore an
  argument: a row of a buffer takes the three blocks for its rack, chassis and valve
  Clickable.
\<close>

type_synonym fresh = "Clickable \<times> Clickable \<times> Clickable"

text \<open>\<^verbatim>\<open>new_linky_buffer\<close> (lines 338-362). The un-editable tag is applied from the start
  to the end of the new, empty buffer. \<^verbatim>\<open>title\<close> is assigned by the caller right after.\<close>

definition new_linky_buffer :: "Clickable \<Rightarrow> LinkyBuffer" where
  "new_linky_buffer desc =
     (let b = gtk_text_buffer_new in
      \<lparr>description = desc,
       buffer = gtk_text_buffer_apply_tag b UnEditable 0 (gtk_text_buffer_get_end_offset b),
       g_string_list = [], clickables = [], page_id = -1, title = []\<rparr>)"

text \<open>\<^verbatim>\<open>add_link\<close> (lines 450-464).\<close>

definition add_link :: "nat \<Rightarrow> nat \<Rightarrow> GtkTextBuffer \<Rightarrow> Clickable \<Rightarrow> GtkTextBuffer" where
  "add_link start_pos end_pos b data =
     gtk_text_buffer_apply_tag b (Link data)
       (gtk_text_buffer_get_iter_at_offset b start_pos)
       (gtk_text_buffer_get_iter_at_offset b end_pos)"

text \<open>\<^verbatim>\<open>append_linky_text_buffer\<close> (lines 367-447). \<open>message1\<close> to \<open>message4\<close> are the
  successive contents of the \<^verbatim>\<open>GString\<close> \<^verbatim>\<open>message\<close>.\<close>

definition append_linky_text_buffer :: "fresh \<Rightarrow> LinkyBuffer \<Rightarrow> SearchResult \<Rightarrow> LinkyBuffer" where
  "append_linky_text_buffer mem linky_buffer data =
     (let offset = gtk_text_buffer_get_end_offset (buffer linky_buffer);
          message1 = ''Rack: '' @ printf_i (rack_no data) @ '', '';
          rack_start = offset;
          rack_end = offset + length message1 - 2;
          chassis_start = offset + length message1;
          message2 = message1 @ ''Chassis: '' @ printf_i (chassis_no data) @ '', '';
          chassis_end = offset + length message2 - 2;
          valve_start = offset + length message2;
          message3 = (if 0 \<le> sint (valve_no data)
                      then message2 @ ''Valve: '' @ printf_i (valve_no data) @ '': ''
                      else message2);
          valve_end = offset + length message3 - 2;
          message4 = message3 @ message data @ ''\<newline>'';
          b1 = gtk_text_buffer_insert_at_end (buffer linky_buffer) message4;
          rack_data = (fst mem)\<lparr>type := RACK, rack_num := rack_no data\<rparr>;
          chassis_data = (fst (snd mem))\<lparr>type := CHASSIS, rack_num := rack_no data,
                            chassis_num := chassis_no data\<rparr>;
          valve_data = (snd (snd mem))\<lparr>type := VALVE, rack_num := rack_no data,
                            chassis_num := chassis_no data, valve_num := valve_no data\<rparr>;
          cs = chassis_data # rack_data # clickables linky_buffer;
          cs' = (if 0 \<le> sint (valve_no data) then valve_data # cs else cs);
          b2 = gtk_text_buffer_apply_tag b1 (Description (\<not> enabled data) (error_id data))
                 (gtk_text_buffer_get_iter_at_offset b1 valve_end)
                 (gtk_text_buffer_get_end_offset b1);
          b3 = add_link rack_start rack_end b2 rack_data;
          b4 = add_link chassis_start chassis_end b3 chassis_data;
          b5 = (if 0 \<le> sint (valve_no data) then add_link valve_start valve_end b4 valve_data
                else b4)
      in linky_buffer\<lparr>buffer := b5, g_string_list := message4 # g_string_list linky_buffer,
                       clickables := cs'\<rparr>)"

text \<open>\<^verbatim>\<open>insert_search_result\<close> (lines 484-493) skips a NULL result; its second argument is
  the buffer that \<^verbatim>\<open>update_tab\<close> has already asserted to be non-NULL.\<close>

definition insert_search_result :: "fresh \<Rightarrow> SearchResult option \<Rightarrow> LinkyBuffer \<Rightarrow> LinkyBuffer" where
  "insert_search_result mem data linky_buffer =
     (case data of None \<Rightarrow> linky_buffer
      | Some res \<Rightarrow> append_linky_text_buffer mem linky_buffer res)"

text \<open>\<^verbatim>\<open>g_list_foreach (results, insert_search_result, linky_buffer)\<close>; the row with index
  \<open>i\<close> allocates from \<open>mem i\<close>.\<close>

fun insert_search_results ::
  "(nat \<Rightarrow> fresh) \<Rightarrow> nat \<Rightarrow> SearchResult option list \<Rightarrow> LinkyBuffer \<Rightarrow> LinkyBuffer" where
  "insert_search_results mem i [] linky_buffer = linky_buffer"
| "insert_search_results mem i (d # ds) linky_buffer =
     insert_search_results mem (Suc i) ds (insert_search_result (mem i) d linky_buffer)"

text \<open>
  \<^verbatim>\<open>update_tab\<close> (lines 495-516). \<^verbatim>\<open>search_clickable\<close> is a function of \<^verbatim>\<open>sql.c\<close>, which
  is not among the sources: the query is an argument, giving for a Clickable the list of
  results (whose entries the code checks against NULL).
\<close>

definition update_tab ::
  "(Clickable \<Rightarrow> SearchResult option list) \<Rightarrow> (nat \<Rightarrow> fresh) \<Rightarrow> LinkyBuffer option
     \<Rightarrow> error + LinkyBuffer" where
  "update_tab search_clickable mem data =
     (case data of None \<Rightarrow> Inl AssertionFailed
      | Some linky_buffer \<Rightarrow>
          let results = search_clickable (description linky_buffer);
              cleared = linky_buffer\<lparr>buffer := gtk_text_buffer_delete_all (buffer linky_buffer),
                                      g_string_list := [], clickables := []\<rparr>
          in Inr (insert_search_results mem 0 results cleared))"

text \<open>The title of a tab: the \<^verbatim>\<open>switch\<close> of \<^verbatim>\<open>add_new_page_to_notebook\<close>
  (lines 158-173), with its format strings.\<close>

definition page_title :: "Clickable \<Rightarrow> string" where
  "page_title data =
     (case type data of
        ALL_T \<Rightarrow> ''All''
      | RACK \<Rightarrow> ''Rack '' @ printf_i (rack_num data)
      | CHASSIS \<Rightarrow> ''Rack '' @ printf_i (rack_num data) @ '', Chassis: '' @ printf_i (chassis_num data)
      | VALVE \<Rightarrow> ''Rack '' @ printf_i (rack_num data) @ '', Chassis '' @ printf_i (chassis_num data)
                  @ '', Valve: '' @ printf_i (valve_num data)
      | OTHER n \<Rightarrow> ''(Unknown)'')"

subsection \<open>The notebook widget\<close>

text \<open>
  Of the \<^verbatim>\<open>GtkNotebook\<close> the object inherits from, the code reads back the number of pages
  and the current page; of the widget tree, whether the notebook sits in a top-level window
  (\<^verbatim>\<open>gtk_widget_is_toplevel\<close> of \<^verbatim>\<open>gtk_widget_get_toplevel\<close>), which
  \<^verbatim>\<open>gtk_window_close\<close> then closes. The GTK functions follow the GTK 3 reference:
  appending returns the index of the new page, which is the former number of pages;
  \<^verbatim>\<open>gtk_notebook_set_current_page\<close> takes a negative number for the last page and does
  nothing for a number that is not a page; \<^verbatim>\<open>gtk_notebook_remove_page\<close> takes \<open>-1\<close> for
  the last page and does nothing for a number that is not a page; the current page is
  \<open>-1\<close> when there are no pages. When the current page is removed GTK shows one of its
  neighbours; which one it looks for first is not fixed here: \<open>next_first\<close> says whether
  it is the page after the removed one (otherwise the page before it).
\<close>

record GtkNotebook =
  n_pages :: nat
  current_page :: int
  in_toplevel :: bool
  window_closed :: bool
  next_first :: bool

definition gtk_notebook_append_page :: "GtkNotebook \<Rightarrow> GtkNotebook \<times> int" where
  "gtk_notebook_append_page nb =
     (nb\<lparr>n_pages := Suc (n_pages nb),
         current_page := (if n_pages nb = 0 then 0 else current_page nb)\<rparr>,
      int (n_pages nb))"

definition gtk_notebook_set_current_page :: "GtkNotebook \<Rightarrow> int \<Rightarrow> GtkNotebook" where
  "gtk_notebook_set_current_page nb page_num =
     (let p = (if page_num < 0 then int (n_pages nb) - 1 else page_num) in
      if 0 \<le> p \<and> p < int (n_pages nb) then nb\<lparr>current_page := p\<rparr> else nb)"

definition gtk_notebook_remove_page :: "GtkNotebook \<Rightarrow> int \<Rightarrow> GtkNotebook" where
  "gtk_notebook_remove_page nb page_num =
     (let p = (if page_num < 0 then int (n_pages nb) - 1 else page_num) in
      if 0 \<le> p \<and> p < int (n_pages nb)
      then nb\<lparr>n_pages := n_pages nb - 1,
              current_page :=
                (if p < current_page nb then current_page nb - 1
                 else if p = current_page nb
                 then (if next_first nb
                       then (if p + 1 < int (n_pages nb) then p else p - 1)
                       else (if 0 < p then p - 1 else if 1 < n_pages nb then 0 else -1))
                 else current_page nb)\<rparr>
      else nb)"

definition gtk_window_close :: "GtkNotebook \<Rightarrow> GtkNotebook" where
  "gtk_window_close nb = nb\<lparr>window_closed := True\<rparr>"

text \<open>The object: the parent instance and the private \<^verbatim>\<open>open_tabs_list\<close>, a
  \<^verbatim>\<open>GSList\<close> of pointers to LinkyBuffers. A list cell may hold NULL.\<close>

record EdsacErrorNotebook =
  parent_instance :: GtkNotebook
  open_tabs_list :: "LinkyBuffer option list"

subsection \<open>The GLib list functions the code calls\<close>

text \<open>\<^verbatim>\<open>g_slist_find_custom\<close> returns the first cell on which the comparison gives 0 (here:
  its position), or NULL. \<^verbatim>\<open>g_slist_insert_sorted\<close> puts the new element before the first
  one it does not compare greater than, or at the end. A comparison that stops the program
  stops the traversal.\<close>

fun g_slist_find_custom :: "'a list \<Rightarrow> 'b \<Rightarrow> ('a \<Rightarrow> 'b \<Rightarrow> error + int) \<Rightarrow> error + nat option" where
  "g_slist_find_custom [] data func = Inr None"
| "g_slist_find_custom (x # xs) data func =
     (case func x data of
        Inl e \<Rightarrow> Inl e
      | Inr c \<Rightarrow>
          if c = 0 then Inr (Some 0)
          else (case g_slist_find_custom xs data func of
                  Inl e \<Rightarrow> Inl e
                | Inr None \<Rightarrow> Inr None
                | Inr (Some i) \<Rightarrow> Inr (Some (Suc i))))"

fun g_slist_insert_sorted :: "'a list \<Rightarrow> 'a \<Rightarrow> ('a \<Rightarrow> 'a \<Rightarrow> error + int) \<Rightarrow> error + 'a list" where
  "g_slist_insert_sorted [] data func = Inr [data]"
| "g_slist_insert_sorted (x # xs) data func =
     (case func data x of
        Inl e \<Rightarrow> Inl e
      | Inr cmp \<Rightarrow>
          if 0 < cmp
          then (case g_slist_insert_sorted xs data func of
                  Inl e \<Rightarrow> Inl e
                | Inr ys \<Rightarrow> Inr (x # ys))
          else Inr (data # x # xs))"

subsection \<open>Comparison functions of the open-tabs list\<close>

text \<open>\<^verbatim>\<open>open_tabs_list_compare_by_id\<close> (lines 301-311).\<close>

definition open_tabs_list_compare_by_id :: "LinkyBuffer option \<Rightarrow> LinkyBuffer option \<Rightarrow> error + int" where
  "open_tabs_list_compare_by_id a b =
     (case a of None \<Rightarrow> Inl AssertionFailed | Some A \<Rightarrow>
     (case b of None \<Rightarrow> Inl AssertionFailed | Some B \<Rightarrow>
        Inr (page_id A - page_id B)))"

text \<open>\<^verbatim>\<open>open_tabs_list_dec_id\<close> (lines 314-320).\<close>

definition open_tabs_list_dec_id :: "LinkyBuffer option \<Rightarrow> error + LinkyBuffer option" where
  "open_tabs_list_dec_id data =
     (case data of None \<Rightarrow> Inl AssertionFailed
      | Some tab_page_desc \<Rightarrow> Inr (Some (tab_page_desc\<lparr>page_id := page_id tab_page_desc - 1\<rparr>)))"

text \<open>\<^verbatim>\<open>open_tabs_list_search_by_id\<close> (lines 323-335). The second argument is the address of
  a local variable of the caller, never NULL; the model passes the number.\<close>

definition open_tabs_list_search_by_id :: "LinkyBuffer option \<Rightarrow> int \<Rightarrow> error + int" where
  "open_tabs_list_search_by_id result id' =
     (case result of None \<Rightarrow> Inl AssertionFailed
      | Some linky_buffer \<Rightarrow> if page_id linky_buffer = id' then Inr 0 else Inr 1)"

text \<open>\<^verbatim>\<open>open_tabs_list_compare_by_desc\<close> (lines 468-482).\<close>

definition open_tabs_list_compare_by_desc :: "LinkyBuffer option \<Rightarrow> LinkyBuffer option \<Rightarrow> error + int" where
  "open_tabs_list_compare_by_desc a b =
     (case a of None \<Rightarrow> Inl AssertionFailed | Some A \<Rightarrow>
     (case b of None \<Rightarrow> Inl AssertionFailed | Some B \<Rightarrow>
     (case clickable_compare (Some (description A)) (Some (description B)) of
        Inl e \<Rightarrow> Inl e
      | Inr eq \<Rightarrow> Inr (if eq then 0 else 1))))"

text \<open>\<^verbatim>\<open>g_slist_foreach\<close> with \<^verbatim>\<open>open_tabs_list_dec_id\<close>, and with \<^verbatim>\<open>update_tab\<close>.
  The tab at position \<open>i\<close> of the list allocates the Clickables of its rows from
  \<open>mem i\<close>.\<close>

fun foreach_dec_id :: "LinkyBuffer option list \<Rightarrow> error + LinkyBuffer option list" where
  "foreach_dec_id [] = Inr []"
| "foreach_dec_id (x # xs) =
     (case open_tabs_list_dec_id x of
        Inl e \<Rightarrow> Inl e
      | Inr y \<Rightarrow> (case foreach_dec_id xs of Inl e \<Rightarrow> Inl e | Inr ys \<Rightarrow> Inr (y # ys)))"

fun foreach_update_tab ::
  "(Clickable \<Rightarrow> SearchResult option list) \<Rightarrow> (nat \<Rightarrow> nat \<Rightarrow> fresh) \<Rightarrow> nat
     \<Rightarrow> LinkyBuffer option list \<Rightarrow> error + LinkyBuffer option list" where
  "foreach_update_tab search_clickable mem i [] = Inr []"
| "foreach_update_tab search_clickable mem i (x # xs) =
     (case update_tab search_clickable (mem i) x of
        Inl e \<Rightarrow> Inl e
      | Inr y \<Rightarrow> (case foreach_update_tab search_clickable mem (Suc i) xs of
                    Inl e \<Rightarrow> Inl e
                  | Inr ys \<Rightarrow> Inr (Some y # ys)))"

subsection \<open>Opening a tab\<close>

text \<open>A LinkyBuffer declared as a local variable of which the code assigns one field before
  handing its address to a comparison (\<^verbatim>\<open>data_desc\<close> in
  \<^verbatim>\<open>edsac_error_notebook_show_page\<close>, \<^verbatim>\<open>example\<close> in \<^verbatim>\<open>close_button_handler\<close>). The
  comparison reads the assigned field only; the other fields are empty here.\<close>

definition local_linky_buffer :: LinkyBuffer where
  "local_linky_buffer =
     \<lparr>description = \<lparr>type = ALL_T, rack_num = 0, chassis_num = 0, valve_num = 0\<rparr>,
      buffer = gtk_text_buffer_new, g_string_list = [], clickables = [], page_id = 0,
      title = []\<rparr>"

text \<open>
  \<^verbatim>\<open>add_new_page_to_notebook\<close> (lines 143-209). The result \<open>None\<close> is the NULL returned
  for a NULL argument; otherwise the new object state and the new buffer. The list cell holds
  a pointer to the buffer that \<^verbatim>\<open>update_tab\<close> fills after the insertion; the insertion
  compares \<^verbatim>\<open>page_id\<close> only, which \<^verbatim>\<open>update_tab\<close> leaves alone, so the model inserts the
  filled buffer. The asserts on GTK's results hold in the model of GTK above.
\<close>

definition add_new_page_to_notebook ::
  "(Clickable \<Rightarrow> SearchResult option list) \<Rightarrow> (nat \<Rightarrow> fresh) \<Rightarrow> EdsacErrorNotebook option
     \<Rightarrow> Clickable option \<Rightarrow> error + (EdsacErrorNotebook \<times> LinkyBuffer) option" where
  "add_new_page_to_notebook search_clickable mem self' data' =
     (case self' of None \<Rightarrow> Inr None | Some self \<Rightarrow>
     (case data' of None \<Rightarrow> Inr None | Some data \<Rightarrow>
        let linky_buffer = (new_linky_buffer data)\<lparr>title := page_title data\<rparr>;
            (notebook, index) = gtk_notebook_append_page (parent_instance self);
            linky_buffer = linky_buffer\<lparr>page_id := index\<rparr>
        in (case update_tab search_clickable mem (Some linky_buffer) of
              Inl e \<Rightarrow> Inl e
            | Inr linky_buffer \<Rightarrow>
            (case g_slist_insert_sorted (open_tabs_list self) (Some linky_buffer)
                    open_tabs_list_compare_by_id of
               Inl e \<Rightarrow> Inl e
             | Inr tabs \<Rightarrow>
                 Inr (Some (\<lparr>parent_instance = gtk_notebook_set_current_page notebook index,
                              open_tabs_list = tabs\<rparr>, linky_buffer))))))"

text \<open>\<^verbatim>\<open>edsac_error_notebook_show_page\<close> (lines 97-114). The function reads through both
  pointers without a check.\<close>

definition edsac_error_notebook_show_page ::
  "(Clickable \<Rightarrow> SearchResult option list) \<Rightarrow> (nat \<Rightarrow> fresh) \<Rightarrow> EdsacErrorNotebook option
     \<Rightarrow> Clickable option \<Rightarrow> error + EdsacErrorNotebook" where
  "edsac_error_notebook_show_page search_clickable mem self' data' =
     (case data' of None \<Rightarrow> Inl NullDereference | Some data \<Rightarrow>
     (case self' of None \<Rightarrow> Inl NullDereference | Some self \<Rightarrow>
        let data_desc = local_linky_buffer\<lparr>page_id := -1, description := data\<rparr> in
        (case g_slist_find_custom (open_tabs_list self) (Some data_desc)
                open_tabs_list_compare_by_desc of
           Inl e \<Rightarrow> Inl e
         | Inr (Some found) \<Rightarrow>
             (case open_tabs_list self ! found of
                None \<Rightarrow> Inl AssertionFailed
              | Some tab \<Rightarrow>
                  Inr (self\<lparr>parent_instance :=
                         gtk_notebook_set_current_page (parent_instance self) (page_id tab)\<rparr>))
         | Inr None \<Rightarrow>
             (case add_new_page_to_notebook search_clickable mem (Some self) (Some data) of
                Inl e \<Rightarrow> Inl e
              | Inr None \<Rightarrow> Inr self
              | Inr (Some (self, linky_buffer)) \<Rightarrow> Inr self))))"

subsection \<open>Closing tabs\<close>

text \<open>
  \<^verbatim>\<open>close_tab\<close> (lines 211-243). The cell \<^verbatim>\<open>tab_in_list\<close> is given by its position in
  the list; a position past the end is the NULL cell. The page number is read before the
  decrement. \<^verbatim>\<open>g_slist_foreach\<close> starts at the cell itself, and
  \<^verbatim>\<open>g_slist_delete_link\<close> takes the cell out.
\<close>

definition close_tab :: "EdsacErrorNotebook \<Rightarrow> nat \<Rightarrow> error + EdsacErrorNotebook" where
  "close_tab self tab_in_list =
     (if length (open_tabs_list self) \<le> tab_in_list then Inl AssertionFailed
      else (case open_tabs_list self ! tab_in_list of
              None \<Rightarrow> Inl NullDereference
            | Some tab_page_desc \<Rightarrow>
                let page_id' = page_id tab_page_desc in
                (case foreach_dec_id (drop tab_in_list (open_tabs_list self)) of
                   Inl e \<Rightarrow> Inl e
                 | Inr decremented \<Rightarrow>
                     let tabs = take tab_in_list (open_tabs_list self) @ tl decremented;
                         notebook = gtk_notebook_remove_page (parent_instance self) page_id'
                     in if 0 = n_pages notebook
                        then (if in_toplevel notebook
                              then Inr \<lparr>parent_instance = gtk_window_close notebook,
                                        open_tabs_list = tabs\<rparr>
                              else Inl ExitFailure)
                        else Inr \<lparr>parent_instance = notebook, open_tabs_list = tabs\<rparr>)))"

text \<open>
  \<^verbatim>\<open>close_button_handler\<close> (lines 568-593). \<open>page_num\<close> is what
  \<^verbatim>\<open>gtk_notebook_page_num\<close> answers for the contents of the tab whose button was pressed:
  the number of that page, or \<open>-1\<close>. The widgets GTK hands to the handler are not NULL.
\<close>

definition close_button_handler :: "EdsacErrorNotebook \<Rightarrow> int \<Rightarrow> error + EdsacErrorNotebook" where
  "close_button_handler notebook page_num =
     (if -1 = page_num then Inr notebook
      else let example = local_linky_buffer\<lparr>page_id := page_num\<rparr> in
        (case g_slist_find_custom (open_tabs_list notebook) (Some example)
                open_tabs_list_compare_by_id of
           Inl e \<Rightarrow> Inl e
         | Inr None \<Rightarrow> Inr notebook
         | Inr (Some result) \<Rightarrow> close_tab notebook result))"

text \<open>
  The loop of \<^verbatim>\<open>edsac_error_notebook_close_node\<close> (lines 120-139); \<open>item\<close> is the
  position of the cell, and a position past the end is NULL.
\<close>

function close_node_loop ::
  "EdsacErrorNotebook \<Rightarrow> 32 word \<Rightarrow> 32 word \<Rightarrow> nat \<Rightarrow> error + EdsacErrorNotebook" where
  "close_node_loop self rack_no' chassis_no' item =
     (if length (open_tabs_list self) \<le> item then Inr self
      else (case open_tabs_list self ! item of
              None \<Rightarrow> Inr self
            | Some linky_buffer \<Rightarrow>
                if rack_num (description linky_buffer) = rack_no'
                then (if chassis_num (description linky_buffer) = chassis_no'
                      then (case close_tab self item of
                              Inl e \<Rightarrow> Inl e
                            | Inr self2 \<Rightarrow> close_node_loop self2 rack_no' chassis_no' 0)
                      else close_node_loop self rack_no' chassis_no' (Suc item))
                else close_node_loop self rack_no' chassis_no' (Suc item)))"
  by pat_completeness auto
termination
proof (relation "measures [\<lambda>(s, r, c, i). length (open_tabs_list s),
                           \<lambda>(s, r, c, i). length (open_tabs_list s) - i]")
  show "wf (measures [\<lambda>(s, r, c, i). length (open_tabs_list s),
                      \<lambda>(s, r, c, i). length (open_tabs_list s) - i])"
    by simp
next
  fix self :: EdsacErrorNotebook and rack_no' chassis_no' :: "32 word" and item :: nat
    and x2 :: LinkyBuffer and self2 :: EdsacErrorNotebook
  assume inside: "\<not> length (open_tabs_list self) \<le> item"
    and closed: "close_tab self item = Inr self2"
  have len: "foreach_dec_id xs = Inr ys \<Longrightarrow> length ys = length xs" for xs ys
    by (induction xs arbitrary: ys)
       (auto simp: open_tabs_list_dec_id_def split: sum.splits option.splits)
  from closed inside
  have "length (open_tabs_list self2) < length (open_tabs_list self)"
    by (auto simp: close_tab_def Let_def dest!: len split: option.splits sum.splits if_splits)
  then show "((self2, rack_no', chassis_no', 0), self, rack_no', chassis_no', item)
      \<in> measures [\<lambda>(s, r, c, i). length (open_tabs_list s),
                   \<lambda>(s, r, c, i). length (open_tabs_list s) - i]"
    by simp
qed auto

declare close_node_loop.simps [simp del]

text \<open>\<^verbatim>\<open>edsac_error_notebook_close_node\<close> (lines 116-140). The result is the object after
  the call (\<open>None\<close> for the NULL object).\<close>

definition edsac_error_notebook_close_node ::
  "EdsacErrorNotebook option \<Rightarrow> 32 word \<Rightarrow> 32 word \<Rightarrow> error + EdsacErrorNotebook option" where
  "edsac_error_notebook_close_node self' rack_no' chassis_no' =
     (case self' of None \<Rightarrow> Inr None
      | Some self \<Rightarrow>
          (case close_node_loop self rack_no' chassis_no' 0 of
             Inl e \<Rightarrow> Inl e
           | Inr self2 \<Rightarrow> Inr (Some self2)))"

subsection \<open>Counting and updating\<close>

text \<open>
  \<^verbatim>\<open>edsac_error_notebook_get_error_count\<close> (lines 76-95). \<^verbatim>\<open>count_clickable\<close> is a
  function of \<^verbatim>\<open>sql.c\<close>, which is not among the sources; it is an argument.
\<close>

definition edsac_error_notebook_get_error_count ::
  "(Clickable \<Rightarrow> int) \<Rightarrow> EdsacErrorNotebook option \<Rightarrow> error + int" where
  "edsac_error_notebook_get_error_count count_clickable self' =
     (case self' of None \<Rightarrow> Inl AssertionFailed
      | Some self \<Rightarrow>
          let current_page' = current_page (parent_instance self) in
          if -1 = current_page' then Inr (-1)
          else (case g_slist_find_custom (open_tabs_list self) current_page'
                       open_tabs_list_search_by_id of
                  Inl e \<Rightarrow> Inl e
                | Inr None \<Rightarrow> Inr (-1)
                | Inr (Some result) \<Rightarrow>
                    (case open_tabs_list self ! result of
                       None \<Rightarrow> Inl NullDereference
                     | Some linky_buffer \<Rightarrow> Inr (count_clickable (description linky_buffer)))))"

text \<open>\<^verbatim>\<open>edsac_error_notebook_update\<close> (lines 71-73).\<close>

definition edsac_error_notebook_update ::
  "(Clickable \<Rightarrow> SearchResult option list) \<Rightarrow> (nat \<Rightarrow> nat \<Rightarrow> fresh) \<Rightarrow> EdsacErrorNotebook option
     \<Rightarrow> error + EdsacErrorNotebook" where
  "edsac_error_notebook_update search_clickable mem self' =
     (case self' of None \<Rightarrow> Inl NullDereference
      | Some self \<Rightarrow>
          (case foreach_update_tab search_clickable mem 0 (open_tabs_list self) of
             Inl e \<Rightarrow> Inl e
           | Inr tabs \<Rightarrow> Inr (self\<lparr>open_tabs_list := tabs\<rparr>)))"

subsection \<open>The initial object and the reachable states\<close>

text \<open>\<^verbatim>\<open>edsac_error_notebook_instance_init\<close> (lines 684-697): an empty list, then the tab
  of a freshly allocated Clickable of which only the tag ALL is set. The new widget, which
  GTK has initialised before, has no pages and is not yet in a window.\<close>

definition gtk_notebook_new :: "bool \<Rightarrow> GtkNotebook" where
  "gtk_notebook_new gtk_next_first =
     \<lparr>n_pages = 0, current_page = -1, in_toplevel = False, window_closed = False,
      next_first = gtk_next_first\<rparr>"

definition edsac_error_notebook_instance_init ::
  "(Clickable \<Rightarrow> SearchResult option list) \<Rightarrow> (nat \<Rightarrow> fresh) \<Rightarrow> Clickable \<Rightarrow> bool
     \<Rightarrow> error + EdsacErrorNotebook" where
  "edsac_error_notebook_instance_init search_clickable mem all_mem gtk_next_first =
     (let self = \<lparr>parent_instance = gtk_notebook_new gtk_next_first, open_tabs_list = []\<rparr>;
          all_desc = all_mem\<lparr>type := ALL_T\<rparr>
      in (case add_new_page_to_notebook search_clickable mem (Some self) (Some all_desc) of
            Inl e \<Rightarrow> Inl e
          | Inr None \<Rightarrow> Inl AssertionFailed
          | Inr (Some (self, all)) \<Rightarrow> Inr self))"

text \<open>
  The states of the object: the initial one, and those reached by showing a page, pressing
  a close button, closing a node, updating, and by what happens to the widget from outside
  (it is packed into a window or taken out, the user switches to another tab). The database
  and the content of fresh memory may differ from call to call.
\<close>

inductive reachable :: "EdsacErrorNotebook \<Rightarrow> bool" where
  init: "edsac_error_notebook_instance_init search_clickable mem all_mem gtk_next_first = Inr s
          \<Longrightarrow> reachable s"
| packed: "reachable s
          \<Longrightarrow> reachable (s\<lparr>parent_instance := (parent_instance s)\<lparr>in_toplevel := b\<rparr>\<rparr>)"
| switched: "reachable s
          \<Longrightarrow> reachable (s\<lparr>parent_instance := gtk_notebook_set_current_page (parent_instance s) p\<rparr>)"
| shown: "reachable s
          \<Longrightarrow> edsac_error_notebook_show_page search_clickable mem (Some s) (Some data) = Inr s'
          \<Longrightarrow> reachable s'"
| closed: "reachable s \<Longrightarrow> close_button_handler s page_num = Inr s' \<Longrightarrow> reachable s'"
| node_closed: "reachable s
          \<Longrightarrow> edsac_error_notebook_close_node (Some s) rack_no' chassis_no' = Inr (Some s')
          \<Longrightarrow> reachable s'"
| updated: "reachable s
          \<Longrightarrow> edsac_error_notebook_update search_clickable mem2 (Some s) = Inr s'
          \<Longrightarrow> reachable s'"

subsection \<open>Notions used to state the properties\<close>

text \<open>The entry of a tab behind a closed one: the same buffer, its page number one less.\<close>

definition dec_page_id :: "LinkyBuffer \<Rightarrow> LinkyBuffer" where
  "dec_page_id t = t\<lparr>page_id := page_id t - 1\<rparr>"

text \<open>The contiguity of the page numbers: no cell is NULL, the cell at position \<open>i\<close> holds
  the buffer of page \<open>i\<close>, and the widget has as many pages as the list has cells.\<close>

definition contiguous :: "EdsacErrorNotebook \<Rightarrow> bool" where
  "contiguous s \<longleftrightarrow>
     map (map_option page_id) (open_tabs_list s)
       = map (\<lambda>i. Some (int i)) [0..<length (open_tabs_list s)]
     \<and> n_pages (parent_instance s) = length (open_tabs_list s)"

text \<open>The test of \<^verbatim>\<open>edsac_error_notebook_close_node\<close> on a description.\<close>

definition in_node :: "32 word \<Rightarrow> 32 word \<Rightarrow> Clickable \<Rightarrow> bool" where
  "in_node r c d \<longleftrightarrow> rack_num d = r \<and> chassis_num d = c"

text \<open>A tab is the one asked for when \<^verbatim>\<open>clickable_compare\<close> accepts its description.\<close>

definition same_page :: "Clickable \<Rightarrow> LinkyBuffer \<Rightarrow> bool" where
  "same_page d t \<longleftrightarrow> clickable_compare (Some (description t)) (Some d) = Inr True"

text \<open>A sequence of calls of \<^verbatim>\<open>edsac_error_notebook_show_page\<close> with the same Clickable,
  each with its own database and fresh memory.\<close>

fun show_page_repeatedly ::
  "((Clickable \<Rightarrow> SearchResult option list) \<times> (nat \<Rightarrow> fresh)) list \<Rightarrow> Clickable
     \<Rightarrow> EdsacErrorNotebook \<Rightarrow> error + EdsacErrorNotebook" where
  "show_page_repeatedly [] d s = Inr s"
| "show_page_repeatedly (env # envs) d s =
     (case edsac_error_notebook_show_page (fst env) (snd env) (Some s) (Some d) of
        Inl e \<Rightarrow> Inl e
      | Inr s' \<Rightarrow> show_page_repeatedly envs d s')"

text \<open>The page numbers held by the entries of the open-tabs list, in list order.\<close>

definition page_ids :: "EdsacErrorNotebook \<Rightarrow> int list" where
  "page_ids s = [page_id t. Some t \<leftarrow> open_tabs_list s]"

subsection \<open>States for the examples\<close>

text \<open>A database without errors, fresh memory full of zeros, the tab that
  \<^verbatim>\<open>add_new_page_to_notebook\<close> makes for a Clickable on that database, a notebook in a
  window, and the states after opening the tabs of rack 3 and of chassis 5 in rack 3.\<close>

definition no_errors :: "Clickable \<Rightarrow> SearchResult option list" where
  "no_errors d = []"

definition zero_block :: Clickable where
  "zero_block = \<lparr>type = ALL_T, rack_num = 0, chassis_num = 0, valve_num = 0\<rparr>"

definition zero_mem :: "nat \<Rightarrow> fresh" where
  "zero_mem row = (zero_block, zero_block, zero_block)"

definition empty_tab :: "Clickable \<Rightarrow> int \<Rightarrow> LinkyBuffer" where
  "empty_tab d i = \<lparr>description = d, buffer = gtk_text_buffer_new, g_string_list = [],
     clickables = [], page_id = i, title = page_title d\<rparr>"

definition rack_3 :: Clickable where
  "rack_3 = \<lparr>type = RACK, rack_num = 3, chassis_num = 0, valve_num = 0\<rparr>"

definition chassis_3_5 :: Clickable where
  "chassis_3_5 = \<lparr>type = CHASSIS, rack_num = 3, chassis_num = 5, valve_num = 0\<rparr>"

definition valve_3_5_1 :: Clickable where
  "valve_3_5_1 = \<lparr>type = VALVE, rack_num = 3, chassis_num = 5, valve_num = 1\<rparr>"

definition window :: "nat \<Rightarrow> int \<Rightarrow> GtkNotebook" where
  "window n cur = \<lparr>n_pages = n, current_page = cur, in_toplevel = True, window_closed = False,
     next_first = False\<rparr>"

definition one_tab :: EdsacErrorNotebook where
  "one_tab = \<lparr>parent_instance = window 1 0, open_tabs_list = [Some (empty_tab zero_block 0)]\<rparr>"

definition two_tabs :: EdsacErrorNotebook where
  "two_tabs = \<lparr>parent_instance = window 2 1,
     open_tabs_list = [Some (empty_tab zero_block 0), Some (empty_tab rack_3 1)]\<rparr>"

definition three_tabs :: EdsacErrorNotebook where
  "three_tabs = \<lparr>parent_instance = window 3 2,
     open_tabs_list = [Some (empty_tab zero_block 0), Some (empty_tab rack_3 1),
                       Some (empty_tab chassis_3_5 2)]\<rparr>"

text \<open>The state with the tab of a valve besides the first tab, and the state with a NULL
  cell behind the first tab.\<close>

definition valve_tabs :: EdsacErrorNotebook where
  "valve_tabs = \<lparr>parent_instance = window 2 1,
     open_tabs_list = [Some (empty_tab zero_block 0), Some (empty_tab valve_3_5_1 1)]\<rparr>"

definition null_cell :: EdsacErrorNotebook where
  "null_cell = \<lparr>parent_instance = window 2 0,
     open_tabs_list = [Some (empty_tab zero_block 0), None]\<rparr>"

text \<open>A count that differs from the number of rendered rows of every example tab.\<close>

definition seven_errors :: "Clickable \<Rightarrow> int" where
  "seven_errors d = 7"

section \<open>Properties\<close>

subsection \<open>Auxiliary facts\<close>

lemma map_option_eq_map_Some:
  "map (map_option f) xs = map Some ys \<Longrightarrow> \<exists>ts. xs = map Some ts \<and> map f ts = ys"
proof (induction xs arbitrary: ys)
  case Nil
  then show ?case by simp
next
  case (Cons x xs)
  then obtain y ys' where ys: "ys = y # ys'" and x: "map_option f x = Some y"
    and rest: "map (map_option f) xs = map Some ys'"
    by (cases ys) auto
  from Cons.IH [OF rest] obtain ts where "xs = map Some ts" and "map f ts = ys'"
    by blast
  moreover from x obtain t where "x = Some t" and "f t = y"
    by (cases x) auto
  ultimately have "x # xs = map Some (t # ts) \<and> map f (t # ts) = ys"
    using ys by simp
  then show ?case by (rule exI)
qed

lemma contiguousD:
  assumes "contiguous s"
  obtains ts where "open_tabs_list s = map Some ts" and "map page_id ts = map int [0..<length ts]"
    and "n_pages (parent_instance s) = length ts"
proof -
  from assms have "map (map_option page_id) (open_tabs_list s)
       = map Some (map int [0..<length (open_tabs_list s)])"
    and n: "n_pages (parent_instance s) = length (open_tabs_list s)"
    by (simp_all add: contiguous_def comp_def)
  from map_option_eq_map_Some [OF this(1)] obtain ts
    where "open_tabs_list s = map Some ts"
      and "map page_id ts = map int [0..<length (open_tabs_list s)]"
    by blast
  with n that [of ts] show thesis by simp
qed

lemma contiguousI:
  assumes "open_tabs_list s = map Some ts" and "map page_id ts = map int [0..<length ts]"
    and "n_pages (parent_instance s) = length ts"
  shows "contiguous s"
proof -
  have "map (map_option page_id) (map Some ts) = map Some (map page_id ts)"
    by simp
  with assms show ?thesis by (simp add: contiguous_def)
qed

lemma foreach_dec_id_Some:
  "foreach_dec_id (map Some ts) = Inr (map (Some \<circ> dec_page_id) ts)"
  by (induction ts) (simp_all add: open_tabs_list_dec_id_def dec_page_id_def)

lemma close_tab_Some:
  assumes "open_tabs_list s = map Some ts" and "i < length ts"
  shows "close_tab s i =
    (let tabs = map Some (take i ts @ map dec_page_id (drop (Suc i) ts));
         notebook = gtk_notebook_remove_page (parent_instance s) (page_id (ts ! i))
     in if 0 = n_pages notebook
        then (if in_toplevel notebook
              then Inr \<lparr>parent_instance = gtk_window_close notebook, open_tabs_list = tabs\<rparr>
              else Inl ExitFailure)
        else Inr \<lparr>parent_instance = notebook, open_tabs_list = tabs\<rparr>)"
proof -
  have "tl (map (Some \<circ> dec_page_id) (drop i ts)) = map Some (map dec_page_id (drop (Suc i) ts))"
    by (simp add: drop_Suc tl_drop flip: map_tl)
  with assms show ?thesis
    by (simp add: close_tab_def drop_map take_map foreach_dec_id_Some Let_def)
qed

lemma find_custom_Some_result:
  assumes f: "\<And>t. \<exists>c. f (Some t) d = Inr c \<and> (c = 0 \<longleftrightarrow> P t)"
  shows "g_slist_find_custom (map Some ts) d f
    = Inr (if \<exists>t \<in> set ts. P t then Some (length (takeWhile (\<lambda>t. \<not> P t) ts)) else None)"
proof (induction ts)
  case Nil
  show ?case by simp
next
  case (Cons t ts)
  from f [of t] obtain c where c: "f (Some t) d = Inr c" "c = 0 \<longleftrightarrow> P t"
    by blast
  show ?case
  proof (cases "P t")
    case True
    with c show ?thesis by simp
  next
    case False
    with c Cons.IH show ?thesis by simp
  qed
qed

lemma compare_by_id_Some:
  "\<exists>c. open_tabs_list_compare_by_id (Some t) (Some ex) = Inr c \<and> (c = 0 \<longleftrightarrow> page_id t = page_id ex)"
  by (simp add: open_tabs_list_compare_by_id_def)

lemma search_by_id_Some:
  "\<exists>c. open_tabs_list_search_by_id (Some t) k = Inr c \<and> (c = 0 \<longleftrightarrow> page_id t = k)"
  by (simp add: open_tabs_list_search_by_id_def)

lemma compare_by_desc_Some:
  "\<exists>c. open_tabs_list_compare_by_desc (Some t) (Some ex) = Inr c
     \<and> (c = 0 \<longleftrightarrow> clickable_compare (Some (description t)) (Some (description ex)) = Inr True)"
  by (auto simp add: open_tabs_list_compare_by_desc_def clickable_compare_def Let_def)

lemma takeWhile_page_id:
  assumes "map page_id ts = map int [k..<k + length ts]" and "int k \<le> p" and "p < int (k + length ts)"
  shows "length (takeWhile (\<lambda>t. page_id t \<noteq> p) ts) = nat p - k"
  using assms
proof (induction ts arbitrary: k)
  case Nil
  then show ?case by simp
next
  case (Cons t ts)
  have "[k..<k + length (t # ts)] = k # [Suc k..<Suc k + length ts]"
    by (simp add: upt_conv_Cons del: upt_Suc)
  with Cons.prems(1) have hd: "page_id t = int k"
    and tl: "map page_id ts = map int [Suc k..<Suc k + length ts]"
    by (simp_all del: upt_Suc)
  show ?case
  proof (cases "p = int k")
    case True
    with hd show ?thesis by simp
  next
    case False
    with Cons.prems have "int (Suc k) \<le> p" and "p < int (Suc k + length ts)"
      by simp_all
    from Cons.IH [OF tl this] False hd Cons.prems(2) show ?thesis
      by simp
  qed
qed

lemma page_id_in_range:
  assumes "map page_id ts = map int [0..<length ts]"
  shows "(\<exists>t \<in> set ts. page_id t = p) \<longleftrightarrow> 0 \<le> p \<and> p < int (length ts)"
proof -
  have "(\<exists>t \<in> set ts. page_id t = p) \<longleftrightarrow> p \<in> set (map page_id ts)"
    by auto
  also have "\<dots> \<longleftrightarrow> p \<in> int ` {0..<length ts}"
    by (simp only: assms set_map set_upt)
  also have "\<dots> \<longleftrightarrow> 0 \<le> p \<and> p < int (length ts)"
  proof
    assume "p \<in> int ` {0..<length ts}"
    then show "0 \<le> p \<and> p < int (length ts)" by auto
  next
    assume "0 \<le> p \<and> p < int (length ts)"
    then have "nat p \<in> {0..<length ts}" and "p = int (nat p)" by auto
    then show "p \<in> int ` {0..<length ts}" by (rule_tac image_eqI)
  qed
  finally show ?thesis .
qed

lemma find_by_id_contiguous:
  assumes "map page_id ts = map int [0..<length ts]"
  shows "g_slist_find_custom (map Some ts) (Some ex) open_tabs_list_compare_by_id
    = Inr (if 0 \<le> page_id ex \<and> page_id ex < int (length ts) then Some (nat (page_id ex)) else None)"
proof -
  have "g_slist_find_custom (map Some ts) (Some ex) open_tabs_list_compare_by_id
    = Inr (if \<exists>t \<in> set ts. page_id t = page_id ex
           then Some (length (takeWhile (\<lambda>t. page_id t \<noteq> page_id ex) ts)) else None)"
    by (rule find_custom_Some_result) (rule compare_by_id_Some)
  moreover have "length (takeWhile (\<lambda>t. page_id t \<noteq> page_id ex) ts) = nat (page_id ex)"
    if "0 \<le> page_id ex" "page_id ex < int (length ts)"
    using takeWhile_page_id [of ts 0 "page_id ex"] assms that by simp
  ultimately show ?thesis
    by (simp add: page_id_in_range [OF assms])
qed

lemma search_by_id_contiguous:
  assumes "map page_id ts = map int [0..<length ts]"
  shows "g_slist_find_custom (map Some ts) p open_tabs_list_search_by_id
    = Inr (if 0 \<le> p \<and> p < int (length ts) then Some (nat p) else None)"
proof -
  have "g_slist_find_custom (map Some ts) p open_tabs_list_search_by_id
    = Inr (if \<exists>t \<in> set ts. page_id t = p
           then Some (length (takeWhile (\<lambda>t. page_id t \<noteq> p) ts)) else None)"
    by (rule find_custom_Some_result) (rule search_by_id_Some)
  moreover have "length (takeWhile (\<lambda>t. page_id t \<noteq> p) ts) = nat p"
    if "0 \<le> p" "p < int (length ts)"
    using takeWhile_page_id [of ts 0 p] assms that by simp
  ultimately show ?thesis
    by (simp add: page_id_in_range [OF assms])
qed

lemma insert_sorted_last:
  assumes "\<forall>t \<in> set ts. page_id t < page_id new"
  shows "g_slist_insert_sorted (map Some ts) (Some new) open_tabs_list_compare_by_id
    = Inr (map Some (ts @ [new]))"
  using assms by (induction ts) (simp_all add: open_tabs_list_compare_by_id_def)

lemma append_linky_text_buffer_keeps:
  "page_id (append_linky_text_buffer mem lb d) = page_id lb"
  "description (append_linky_text_buffer mem lb d) = description lb"
  "title (append_linky_text_buffer mem lb d) = title lb"
  by (simp_all add: append_linky_text_buffer_def Let_def)

lemma insert_search_results_keeps:
  "page_id (insert_search_results mem i ds lb) = page_id lb
   \<and> description (insert_search_results mem i ds lb) = description lb
   \<and> title (insert_search_results mem i ds lb) = title lb"
  by (induction ds arbitrary: i lb)
     (simp_all add: insert_search_result_def append_linky_text_buffer_keeps split: option.splits)

lemma update_tab_Some:
  "\<exists>lb'. update_tab search_clickable mem (Some lb) = Inr lb' \<and> page_id lb' = page_id lb
     \<and> description lb' = description lb \<and> title lb' = title lb"
  by (simp add: update_tab_def Let_def insert_search_results_keeps)

lemma foreach_update_tab_Some:
  "\<exists>ts'. foreach_update_tab search_clickable mem i (map Some ts) = Inr (map Some ts')
     \<and> map page_id ts' = map page_id ts \<and> map description ts' = map description ts"
proof (induction ts arbitrary: i)
  case Nil
  show ?case by simp
next
  case (Cons t ts)
  from update_tab_Some [of search_clickable "mem i" t] obtain t'
    where t': "update_tab search_clickable (mem i) (Some t) = Inr t'" "page_id t' = page_id t"
      "description t' = description t"
    by blast
  from Cons.IH [of "Suc i"] obtain ts'
    where ts': "foreach_update_tab search_clickable mem (Suc i) (map Some ts) = Inr (map Some ts')"
      "map page_id ts' = map page_id ts" "map description ts' = map description ts"
    by blast
  from t' ts' have "foreach_update_tab search_clickable mem i (map Some (t # ts))
      = Inr (map Some (t' # ts'))
    \<and> map page_id (t' # ts') = map page_id (t # ts)
    \<and> map description (t' # ts') = map description (t # ts)"
    by simp
  then show ?case by (rule exI)
qed

lemma add_new_page_contiguous:
  assumes tabs: "open_tabs_list s = map Some ts"
    and ids: "map page_id ts = map int [0..<length ts]"
    and pages: "n_pages (parent_instance s) = length ts"
  shows "\<exists>s' lb. add_new_page_to_notebook search_clickable mem (Some s) (Some d) = Inr (Some (s', lb))
    \<and> open_tabs_list s' = map Some (ts @ [lb])
    \<and> page_id lb = int (length ts) \<and> description lb = d \<and> title lb = page_title d
    \<and> parent_instance s' = (parent_instance s)\<lparr>n_pages := Suc (length ts),
                                                  current_page := int (length ts)\<rparr>"
proof -
  let ?lb = "(new_linky_buffer d)\<lparr>title := page_title d, page_id := int (length ts)\<rparr>"
  from update_tab_Some [of search_clickable mem ?lb] obtain lb
    where lb: "update_tab search_clickable mem (Some ?lb) = Inr lb" "page_id lb = int (length ts)"
      "description lb = d" "title lb = page_title d"
    by (auto simp: new_linky_buffer_def Let_def)
  have "\<forall>t \<in> set ts. page_id t < page_id lb"
  proof
    fix t assume "t \<in> set ts"
    then have "\<exists>t' \<in> set ts. page_id t' = page_id t" by blast
    then have "page_id t < int (length ts)"
      by (simp only: page_id_in_range [OF ids])
    with lb show "page_id t < page_id lb" by simp
  qed
  then have ins: "g_slist_insert_sorted (map Some ts) (Some lb) open_tabs_list_compare_by_id
    = Inr (map Some (ts @ [lb]))"
    by (rule insert_sorted_last)
  have "add_new_page_to_notebook search_clickable mem (Some s) (Some d)
    = Inr (Some (\<lparr>parent_instance = (parent_instance s)\<lparr>n_pages := Suc (length ts),
                                                  current_page := int (length ts)\<rparr>,
                   open_tabs_list = map Some (ts @ [lb])\<rparr>, lb))"
    using lb(1) ins tabs pages
    by (simp add: add_new_page_to_notebook_def gtk_notebook_append_page_def
          gtk_notebook_set_current_page_def Let_def)
  with lb show ?thesis by simp
qed

lemma ids_nth:
  assumes "map page_id ts = map int [0..<length ts]" and "k < length ts"
  shows "page_id (ts ! k) = int k"
proof -
  have "map page_id ts ! k = map int [0..<length ts] ! k"
    by (simp only: assms(1))
  with assms(2) show ?thesis by simp
qed

lemma ids_after_close:
  assumes ids: "map page_id ts = map int [0..<length ts]" and i: "i < length ts"
  shows "map page_id (take i ts @ map dec_page_id (drop (Suc i) ts)) = map int [0..<length ts - 1]"
proof (rule nth_equalityI)
  show "length (map page_id (take i ts @ map dec_page_id (drop (Suc i) ts)))
      = length (map int [0..<length ts - 1])"
    using i by simp
next
  fix j
  assume "j < length (map page_id (take i ts @ map dec_page_id (drop (Suc i) ts)))"
  with i have j: "j < length ts - 1" by simp
  show "map page_id (take i ts @ map dec_page_id (drop (Suc i) ts)) ! j
      = map int [0..<length ts - 1] ! j"
  proof (cases "j < i")
    case True
    with i j ids_nth [OF ids, of j] show ?thesis
      by (simp add: nth_append)
  next
    case False
    with i j ids_nth [OF ids, of "Suc j"] show ?thesis
      by (simp add: nth_append dec_page_id_def)
  qed
qed

lemma close_tab_contiguous:
  assumes tabs: "open_tabs_list s = map Some ts"
    and ids: "map page_id ts = map int [0..<length ts]"
    and pages: "n_pages (parent_instance s) = length ts"
    and i: "i < length ts"
  shows "close_tab s i =
    (let tabs = map Some (take i ts @ map dec_page_id (drop (Suc i) ts));
         notebook = gtk_notebook_remove_page (parent_instance s) (int i)
     in if length ts = 1
        then (if in_toplevel (parent_instance s)
              then Inr \<lparr>parent_instance = gtk_window_close notebook, open_tabs_list = tabs\<rparr>
              else Inl ExitFailure)
        else Inr \<lparr>parent_instance = notebook, open_tabs_list = tabs\<rparr>)"
    and "n_pages (gtk_notebook_remove_page (parent_instance s) (int i)) = length ts - 1"
    and "in_toplevel (gtk_notebook_remove_page (parent_instance s) (int i))
          = in_toplevel (parent_instance s)"
    and "window_closed (gtk_notebook_remove_page (parent_instance s) (int i))
          = window_closed (parent_instance s)"
proof -
  show n: "n_pages (gtk_notebook_remove_page (parent_instance s) (int i)) = length ts - 1"
    and t: "in_toplevel (gtk_notebook_remove_page (parent_instance s) (int i))
          = in_toplevel (parent_instance s)"
    and "window_closed (gtk_notebook_remove_page (parent_instance s) (int i))
          = window_closed (parent_instance s)"
    using pages i by (simp_all add: gtk_notebook_remove_page_def Let_def)
  from i have "length ts - 1 = 0 \<longleftrightarrow> length ts = 1" by auto
  with n t show "close_tab s i =
    (let tabs = map Some (take i ts @ map dec_page_id (drop (Suc i) ts));
         notebook = gtk_notebook_remove_page (parent_instance s) (int i)
     in if length ts = 1
        then (if in_toplevel (parent_instance s)
              then Inr \<lparr>parent_instance = gtk_window_close notebook, open_tabs_list = tabs\<rparr>
              else Inl ExitFailure)
        else Inr \<lparr>parent_instance = notebook, open_tabs_list = tabs\<rparr>)"
    by (simp add: close_tab_Some [OF tabs i] ids_nth [OF ids i] Let_def)
qed

lemma close_tab_keeps_contiguous:
  assumes "contiguous s" and "i < length (open_tabs_list s)" and "close_tab s i = Inr s'"
  shows "contiguous s'"
proof -
  from assms(1) obtain ts where ts: "open_tabs_list s = map Some ts"
    "map page_id ts = map int [0..<length ts]" "n_pages (parent_instance s) = length ts"
    by (rule contiguousD)
  from assms(2) ts(1) have i: "i < length ts" by simp
  let ?ts' = "take i ts @ map dec_page_id (drop (Suc i) ts)"
  from i have len: "length ?ts' = length ts - 1" by simp
  have ids': "map page_id ?ts' = map int [0..<length ?ts']"
    by (simp only: len ids_after_close [OF ts(2) i])
  from assms(3) have "open_tabs_list s' = map Some ?ts'"
    and "n_pages (parent_instance s') = length ts - 1"
    using close_tab_contiguous(2) [OF ts i]
    by (auto simp add: close_tab_contiguous(1) [OF ts i] Let_def gtk_window_close_def
          split: if_splits)
  with len ids' show ?thesis
    by (intro contiguousI [of s' ?ts']) simp_all
qed

lemma close_button_handler_contiguous:
  assumes tabs: "open_tabs_list s = map Some ts"
    and ids: "map page_id ts = map int [0..<length ts]"
  shows "close_button_handler s k
    = (if 0 \<le> k \<and> k < int (length ts) then close_tab s (nat k) else Inr s)"
  using find_by_id_contiguous [OF ids, of "local_linky_buffer\<lparr>page_id := k\<rparr>"]
  by (simp add: close_button_handler_def tabs Let_def)

lemma in_toplevel_remove_page:
  "in_toplevel (gtk_notebook_remove_page nb p) = in_toplevel nb"
  by (simp add: gtk_notebook_remove_page_def Let_def)

lemma close_tab_in_toplevel:
  assumes tabs: "open_tabs_list s = map Some ts" and i: "i < length ts"
    and top: "in_toplevel (parent_instance s)"
  shows "\<exists>s2. close_tab s i = Inr s2
    \<and> open_tabs_list s2 = map Some (take i ts @ map dec_page_id (drop (Suc i) ts))
    \<and> in_toplevel (parent_instance s2)"
  using top
  by (simp add: close_tab_Some [OF tabs i] Let_def gtk_window_close_def in_toplevel_remove_page)

lemma close_node_loop_keeps_contiguous:
  "contiguous s \<Longrightarrow> close_node_loop s r c item = Inr s' \<Longrightarrow> contiguous s'"
proof (induction s r c item rule: close_node_loop.induct)
  case (1 self r c item)
  show ?case
  proof (cases "length (open_tabs_list self) \<le> item")
    case True
    with "1.prems" show ?thesis
      by (simp add: close_node_loop.simps [of self r c item])
  next
    case False
    show ?thesis
    proof (cases "open_tabs_list self ! item")
      case None
      with False "1.prems" show ?thesis
        by (simp add: close_node_loop.simps [of self r c item])
    next
      case (Some lb)
      show ?thesis
      proof (cases "rack_num (description lb) = r \<and> chassis_num (description lb) = c")
        case True
        with False Some "1.prems"(2) obtain s2 where s2: "close_tab self item = Inr s2"
          and rest: "close_node_loop s2 r c 0 = Inr s'"
          by (auto simp add: close_node_loop.simps [of self r c item] split: sum.splits)
        from "1.prems"(1) False s2 have "contiguous s2"
          by (intro close_tab_keeps_contiguous [of self item s2]) simp_all
        with "1.IH"(1) [OF False Some _ _ s2] True rest show ?thesis
          by simp
      next
        case no: False
        with False Some "1.prems"(2) have rest: "close_node_loop self r c (Suc item) = Inr s'"
          by (auto simp add: close_node_loop.simps [of self r c item] split: if_splits)
        show ?thesis
        proof (cases "rack_num (description lb) = r")
          case True
          with no have "chassis_num (description lb) \<noteq> c" by simp
          from "1.IH"(2) [OF False Some True this "1.prems"(1) rest] show ?thesis .
        next
          case False
          from "1.IH"(3) [OF \<open>\<not> length (open_tabs_list self) \<le> item\<close> Some False "1.prems"(1) rest]
          show ?thesis .
        qed
      qed
    qed
  qed
qed

lemma filter_remove_nth:
  assumes "i < length xs" and "\<not> P (xs ! i)"
  shows "filter P (take i xs @ drop (Suc i) xs) = filter P xs"
proof -
  have "filter P xs = filter P (take i xs @ xs ! i # drop (Suc i) xs)"
    using assms(1) by (simp only: id_take_nth_drop [symmetric])
  with assms(2) show ?thesis by simp
qed

lemma close_node_loop_result:
  assumes "open_tabs_list s = map Some ts"
    and "in_toplevel (parent_instance s)"
    and "\<forall>t \<in> set (take item ts). \<not> in_node r c (description t)"
  shows "\<exists>s' ts'. close_node_loop s r c item = Inr s' \<and> open_tabs_list s' = map Some ts'
    \<and> map description ts' = filter (\<lambda>d. \<not> in_node r c d) (map description ts)"
  using assms
proof (induction s r c item arbitrary: ts rule: close_node_loop.induct)
  case (1 self r c item)
  note tabs = "1.prems"(1) and top = "1.prems"(2) and before = "1.prems"(3)
  show ?case
  proof (cases "length (open_tabs_list self) \<le> item")
    case True
    with tabs before have "\<forall>t \<in> set ts. \<not> in_node r c (description t)"
      by simp
    then have "filter (\<lambda>d. \<not> in_node r c d) (map description ts) = map description ts"
      by (simp add: filter_id_conv)
    with True tabs show ?thesis
      by (simp add: close_node_loop.simps [of self r c item])
  next
    case False
    with tabs have item: "item < length ts" by simp
    with tabs have cell: "open_tabs_list self ! item = Some (ts ! item)" by simp
    show ?thesis
    proof (cases "in_node r c (description (ts ! item))")
      case True
      let ?ts2 = "take item ts @ map dec_page_id (drop (Suc item) ts)"
      from close_tab_in_toplevel [OF tabs item top]
      obtain s2 where s2: "close_tab self item = Inr s2"
        and tabs2: "open_tabs_list s2 = map Some ?ts2"
        and top2: "in_toplevel (parent_instance s2)"
        by blast
      from True have yes: "rack_num (description (ts ! item)) = r"
        "chassis_num (description (ts ! item)) = c"
        by (simp_all add: in_node_def)
      from "1.IH"(1) [OF False cell yes s2 tabs2 top2]
      obtain s' ts' where loop: "close_node_loop s2 r c 0 = Inr s'"
        and tabs': "open_tabs_list s' = map Some ts'"
        and descs: "map description ts' = filter (\<lambda>d. \<not> in_node r c d) (map description ?ts2)"
        by auto
      have "map description ?ts2
          = take item (map description ts) @ drop (Suc item) (map description ts)"
        by (simp add: take_map drop_map dec_page_id_def comp_def)
      moreover have "filter (\<lambda>d. \<not> in_node r c d)
            (take item (map description ts) @ drop (Suc item) (map description ts))
          = filter (\<lambda>d. \<not> in_node r c d) (map description ts)"
        using item True by (intro filter_remove_nth) simp_all
      ultimately have "map description ts'
          = filter (\<lambda>d. \<not> in_node r c d) (map description ts)"
        using descs by simp
      moreover from False cell yes s2 loop have "close_node_loop self r c item = Inr s'"
        by (simp add: close_node_loop.simps [of self r c item])
      ultimately show ?thesis using tabs' by blast
    next
      case no: False
      from item have "take (Suc item) ts = take item ts @ [ts ! item]"
        by (rule take_Suc_conv_app_nth)
      with before no have before': "\<forall>t \<in> set (take (Suc item) ts). \<not> in_node r c (description t)"
        by simp
      from False cell no have step: "close_node_loop self r c item = close_node_loop self r c (Suc item)"
        by (simp add: close_node_loop.simps [of self r c item] in_node_def)
      show ?thesis
      proof (cases "rack_num (description (ts ! item)) = r")
        case True
        with no have "chassis_num (description (ts ! item)) \<noteq> c" by (simp add: in_node_def)
        from "1.IH"(2) [OF False cell True this tabs top before'] step show ?thesis
          by simp
      next
        case False
        from "1.IH"(3) [OF \<open>\<not> length (open_tabs_list self) \<le> item\<close> cell False tabs top before'] step
        show ?thesis by simp
      qed
    qed
  qed
qed

lemma length_takeWhile_less:
  "\<exists>x \<in> set xs. \<not> P x \<Longrightarrow> length (takeWhile P xs) < length xs"
  by (induction xs) auto

lemma find_by_desc_Some:
  "g_slist_find_custom (map Some ts) (Some (local_linky_buffer\<lparr>page_id := -1, description := d\<rparr>))
      open_tabs_list_compare_by_desc
    = Inr (if \<exists>t \<in> set ts. same_page d t
           then Some (length (takeWhile (\<lambda>t. \<not> same_page d t) ts)) else None)"
proof (rule find_custom_Some_result)
  fix t
  show "\<exists>c. open_tabs_list_compare_by_desc (Some t)
              (Some (local_linky_buffer\<lparr>page_id := -1, description := d\<rparr>)) = Inr c
          \<and> (c = 0 \<longleftrightarrow> same_page d t)"
    using compare_by_desc_Some [of t "local_linky_buffer\<lparr>page_id := -1, description := d\<rparr>"]
    by (simp add: same_page_def)
qed

lemma show_page_found:
  assumes tabs: "open_tabs_list s = map Some ts"
    and ids: "map page_id ts = map int [0..<length ts]"
    and pages: "n_pages (parent_instance s) = length ts"
    and found: "\<exists>t \<in> set ts. same_page d t"
  shows "edsac_error_notebook_show_page search_clickable mem (Some s) (Some d)
    = Inr (s\<lparr>parent_instance := (parent_instance s)
               \<lparr>current_page := int (length (takeWhile (\<lambda>t. \<not> same_page d t) ts))\<rparr>\<rparr>)"
proof -
  let ?i = "length (takeWhile (\<lambda>t. \<not> same_page d t) ts)"
  from found have i: "?i < length ts"
    by (intro length_takeWhile_less) simp
  with tabs have cell: "open_tabs_list s ! ?i = Some (ts ! ?i)" by simp
  from i pages have "gtk_notebook_set_current_page (parent_instance s) (int ?i)
      = (parent_instance s)\<lparr>current_page := int ?i\<rparr>"
    by (simp add: gtk_notebook_set_current_page_def Let_def)
  with found cell show ?thesis
    by (simp add: edsac_error_notebook_show_page_def tabs find_by_desc_Some ids_nth [OF ids i]
          Let_def)
qed

lemma show_page_new:
  assumes tabs: "open_tabs_list s = map Some ts"
    and ids: "map page_id ts = map int [0..<length ts]"
    and pages: "n_pages (parent_instance s) = length ts"
    and new: "\<not> (\<exists>t \<in> set ts. same_page d t)"
  shows "\<exists>s' lb. edsac_error_notebook_show_page search_clickable mem (Some s) (Some d) = Inr s'
    \<and> open_tabs_list s' = map Some (ts @ [lb])
    \<and> page_id lb = int (length ts) \<and> description lb = d \<and> title lb = page_title d
    \<and> parent_instance s' = (parent_instance s)\<lparr>n_pages := Suc (length ts),
                                                  current_page := int (length ts)\<rparr>"
proof -
  from add_new_page_contiguous [OF tabs ids pages, of search_clickable mem d]
  obtain s' lb where "add_new_page_to_notebook search_clickable mem (Some s) (Some d) = Inr (Some (s', lb))"
    and rest: "open_tabs_list s' = map Some (ts @ [lb])"
      "page_id lb = int (length ts)" "description lb = d" "title lb = page_title d"
      "parent_instance s' = (parent_instance s)\<lparr>n_pages := Suc (length ts),
                                                  current_page := int (length ts)\<rparr>"
    by blast
  with new have "edsac_error_notebook_show_page search_clickable mem (Some s) (Some d) = Inr s'"
    by (simp add: edsac_error_notebook_show_page_def tabs find_by_desc_Some Let_def)
  with rest show ?thesis by blast
qed

lemma show_page_keeps_contiguous:
  assumes "contiguous s"
    and "edsac_error_notebook_show_page search_clickable mem (Some s) (Some d) = Inr s'"
  shows "contiguous s'"
proof -
  from assms(1) obtain ts where ts: "open_tabs_list s = map Some ts"
    "map page_id ts = map int [0..<length ts]" "n_pages (parent_instance s) = length ts"
    by (rule contiguousD)
  show ?thesis
  proof (cases "\<exists>t \<in> set ts. same_page d t")
    case True
    from assms(2) show ?thesis
      unfolding show_page_found [OF ts True]
      using assms(1) by (auto simp add: contiguous_def)
  next
    case False
    from show_page_new [OF ts False, of search_clickable mem] assms(2)
    obtain lb where s': "open_tabs_list s' = map Some (ts @ [lb])" "page_id lb = int (length ts)"
      "parent_instance s' = (parent_instance s)\<lparr>n_pages := Suc (length ts),
                                                  current_page := int (length ts)\<rparr>"
      by auto
    from ts(2) s'(2) have "map page_id (ts @ [lb]) = map int [0..<length (ts @ [lb])]"
      by simp
    with s' show ?thesis
      by (intro contiguousI [of s' "ts @ [lb]"]) simp_all
  qed
qed

lemma reachable_contiguous: "reachable s \<Longrightarrow> contiguous s"
proof (induction rule: reachable.induct)
  case (init search_clickable mem all_mem gtk_next_first s)
  let ?s0 = "\<lparr>parent_instance = gtk_notebook_new gtk_next_first, open_tabs_list = []\<rparr>"
  have "\<exists>s' lb. add_new_page_to_notebook search_clickable mem (Some ?s0)
            (Some (all_mem\<lparr>type := ALL_T\<rparr>)) = Inr (Some (s', lb))
      \<and> open_tabs_list s' = map Some ([] @ [lb]) \<and> page_id lb = int (length ([] :: LinkyBuffer list))
      \<and> description lb = all_mem\<lparr>type := ALL_T\<rparr> \<and> title lb = page_title (all_mem\<lparr>type := ALL_T\<rparr>)
      \<and> parent_instance s' = (parent_instance ?s0)\<lparr>n_pages := Suc (length ([] :: LinkyBuffer list)),
           current_page := int (length ([] :: LinkyBuffer list))\<rparr>"
    by (rule add_new_page_contiguous) (simp_all add: gtk_notebook_new_def)
  then obtain s' lb where new: "add_new_page_to_notebook search_clickable mem (Some ?s0)
            (Some (all_mem\<lparr>type := ALL_T\<rparr>)) = Inr (Some (s', lb))"
    and s': "open_tabs_list s' = [Some lb]" "page_id lb = 0" "n_pages (parent_instance s') = 1"
    by auto
  from init new have "s = s'"
    by (simp add: edsac_error_notebook_instance_init_def Let_def)
  with s' have "open_tabs_list s = map Some [lb]" "page_id lb = 0"
    "n_pages (parent_instance s) = 1"
    by simp_all
  then show ?case
    by (intro contiguousI [of s "[lb]"]) simp_all
next
  case (packed s b)
  then show ?case by (simp add: contiguous_def)
next
  case (switched s p)
  then show ?case by (simp add: contiguous_def gtk_notebook_set_current_page_def Let_def)
next
  case (shown s search_clickable mem data s')
  from shown.IH shown.hyps(2) show ?case by (rule show_page_keeps_contiguous)
next
  case (closed s page_num s')
  from closed.IH obtain ts where ts: "open_tabs_list s = map Some ts"
    "map page_id ts = map int [0..<length ts]" "n_pages (parent_instance s) = length ts"
    by (rule contiguousD)
  show ?case
  proof (cases "0 \<le> page_num \<and> page_num < int (length ts)")
    case True
    with closed.hyps(2) have "close_tab s (nat page_num) = Inr s'"
      by (simp add: close_button_handler_contiguous [OF ts(1,2)])
    moreover from True ts(1) have "nat page_num < length (open_tabs_list s)" by auto
    ultimately show ?thesis
      using closed.IH by (intro close_tab_keeps_contiguous [of s "nat page_num" s'])
  next
    case False
    with closed.hyps(2) closed.IH show ?thesis
      by (simp add: close_button_handler_contiguous [OF ts(1,2)])
  qed
next
  case (node_closed s rack_no' chassis_no' s')
  then show ?case
    by (auto simp add: edsac_error_notebook_close_node_def split: sum.splits
          intro: close_node_loop_keeps_contiguous)
next
  case (updated s search_clickable mem2 s')
  from updated.IH obtain ts where ts: "open_tabs_list s = map Some ts"
    "map page_id ts = map int [0..<length ts]" "n_pages (parent_instance s) = length ts"
    by (rule contiguousD)
  from foreach_update_tab_Some [of search_clickable mem2 0 ts] obtain ts'
    where ts': "foreach_update_tab search_clickable mem2 0 (map Some ts) = Inr (map Some ts')"
      "map page_id ts' = map page_id ts"
    by blast
  then have "length (map page_id ts') = length (map page_id ts)" by simp
  then have "length ts' = length ts" by simp
  with ts' ts updated.hyps(2) show ?case
    by (intro contiguousI [of s' ts']) (auto simp add: edsac_error_notebook_update_def)
qed

subsection \<open>Equality of Clickables\<close>

text \<open>
  Claim C1. The equality of descriptors follows the stated policy: descriptors of different
  tags are unequal; two ALL descriptors are equal whatever their fields; two RACK descriptors
  are equal exactly when their rack numbers match; two CHASSIS descriptors exactly when rack
  and chassis match; two VALVE descriptors exactly when rack and chassis match, the valve
  field not being compared, so that VALVE descriptors with equal rack and chassis and
  different valve numbers compare equal.
\<close>

theorem clickable_compare_policy:
  "(type a \<noteq> type b \<longrightarrow> clickable_compare (Some a) (Some b) = Inr False)
   \<and> (type a = ALL_T \<and> type b = ALL_T \<longrightarrow> clickable_compare (Some a) (Some b) = Inr True)
   \<and> (type a = RACK \<and> type b = RACK \<longrightarrow>
        clickable_compare (Some a) (Some b) = Inr (rack_num a = rack_num b))
   \<and> (type a = CHASSIS \<and> type b = CHASSIS \<longrightarrow>
        clickable_compare (Some a) (Some b)
          = Inr (rack_num a = rack_num b \<and> chassis_num a = chassis_num b))
   \<and> (type a = VALVE \<and> type b = VALVE \<longrightarrow>
        clickable_compare (Some a) (Some b)
          = Inr (rack_num a = rack_num b \<and> chassis_num a = chassis_num b))
   \<and> (type a = VALVE \<and> type b = VALVE \<and> rack_num a = rack_num b
        \<and> chassis_num a = chassis_num b \<and> valve_num a \<noteq> valve_num b \<longrightarrow>
        clickable_compare (Some a) (Some b) = Inr True)"
  by (auto simp add: clickable_compare_def Let_def)


theorem clickable_compare_policy_witness:
  "clickable_compare (Some \<lparr>type = RACK, rack_num = 1, chassis_num = 0, valve_num = 0\<rparr>)
                     (Some \<lparr>type = CHASSIS, rack_num = 1, chassis_num = 0, valve_num = 0\<rparr>) = Inr False
   \<and> clickable_compare (Some \<lparr>type = ALL_T, rack_num = 1, chassis_num = 2, valve_num = 3\<rparr>)
                       (Some \<lparr>type = ALL_T, rack_num = 4, chassis_num = 5, valve_num = 6\<rparr>) = Inr True
   \<and> clickable_compare (Some \<lparr>type = RACK, rack_num = 1, chassis_num = 7, valve_num = 0\<rparr>)
                       (Some \<lparr>type = RACK, rack_num = 1, chassis_num = 8, valve_num = 0\<rparr>) = Inr True
   \<and> clickable_compare (Some \<lparr>type = RACK, rack_num = 1, chassis_num = 0, valve_num = 0\<rparr>)
                       (Some \<lparr>type = RACK, rack_num = 2, chassis_num = 0, valve_num = 0\<rparr>) = Inr False
   \<and> clickable_compare (Some \<lparr>type = CHASSIS, rack_num = 1, chassis_num = 2, valve_num = 0\<rparr>)
                       (Some \<lparr>type = CHASSIS, rack_num = 1, chassis_num = 2, valve_num = 9\<rparr>) = Inr True
   \<and> clickable_compare (Some \<lparr>type = VALVE, rack_num = 1, chassis_num = 2, valve_num = 3\<rparr>)
                       (Some \<lparr>type = VALVE, rack_num = 1, chassis_num = 2, valve_num = 4\<rparr>) = Inr True"
  using
    clickable_compare_policy [of "\<lparr>type = RACK, rack_num = 1, chassis_num = 0, valve_num = 0\<rparr>"
                                 "\<lparr>type = CHASSIS, rack_num = 1, chassis_num = 0, valve_num = 0\<rparr>"]
    clickable_compare_policy [of "\<lparr>type = ALL_T, rack_num = 1, chassis_num = 2, valve_num = 3\<rparr>"
                                 "\<lparr>type = ALL_T, rack_num = 4, chassis_num = 5, valve_num = 6\<rparr>"]
    clickable_compare_policy [of "\<lparr>type = RACK, rack_num = 1, chassis_num = 7, valve_num = 0\<rparr>"
                                 "\<lparr>type = RACK, rack_num = 1, chassis_num = 8, valve_num = 0\<rparr>"]
    clickable_compare_policy [of "\<lparr>type = RACK, rack_num = 1, chassis_num = 0, valve_num = 0\<rparr>"
                                 "\<lparr>type = RACK, rack_num = 2, chassis_num = 0, valve_num = 0\<rparr>"]
    clickable_compare_policy [of "\<lparr>type = CHASSIS, rack_num = 1, chassis_num = 2, valve_num = 0\<rparr>"
                                 "\<lparr>type = CHASSIS, rack_num = 1, chassis_num = 2, valve_num = 9\<rparr>"]
    clickable_compare_policy [of "\<lparr>type = VALVE, rack_num = 1, chassis_num = 2, valve_num = 3\<rparr>"
                                 "\<lparr>type = VALVE, rack_num = 1, chassis_num = 2, valve_num = 4\<rparr>"]
  by simp

subsection \<open>The text of a row\<close>

lemmas printf_eval = printf_i_def string_of_nat.simps digit_char_def

lemma printf_i_3: "printf_i 3 = ''3''"
  by (simp add: printf_eval)

lemma printf_i_5: "printf_i 5 = ''5''"
  by (simp add: printf_eval)

text \<open>
  Claim C7. Updating a buffer, whatever it held, when the query answers the single record
  with rack 3, chassis 5, valve \<open>-1\<close>, message "Overheat" and the enabled flag off, gives
  exactly the text "Rack: 3, Chassis: 5, Overheat" followed by a newline, with two link
  ranges, one carrying a RACK Clickable of rack 3 over the offsets 0 to 7 and one carrying a
  CHASSIS Clickable of rack 3 and chassis 5 over the offsets 9 to 19, no valve link, and one
  description range, carrying the id of the record, from offset 19, where the chassis link
  ends, to the end of the line at 30, greyed out.
\<close>

theorem update_tab_overheat:
  "update_tab
     (\<lambda>d. [Some \<lparr>rack_no = 3, chassis_no = 5, valve_no = -1, message = ''Overheat'',
                  enabled = False, error_id = i\<rparr>])
     (\<lambda>row. (m1, m2, m3)) (Some linky_buffer)
   = Inr (linky_buffer
       \<lparr>buffer := \<lparr>contents = ''Rack: 3, Chassis: 5, Overheat\<newline>'',
                    applied = [(Description True i, 19, 30),
                               (Link (m1\<lparr>type := RACK, rack_num := 3\<rparr>), 0, 7),
                               (Link (m2\<lparr>type := CHASSIS, rack_num := 3, chassis_num := 5\<rparr>),
                                9, 19)]\<rparr>,
         g_string_list := [''Rack: 3, Chassis: 5, Overheat\<newline>''],
         clickables := [m2\<lparr>type := CHASSIS, rack_num := 3, chassis_num := 5\<rparr>,
                        m1\<lparr>type := RACK, rack_num := 3\<rparr>]\<rparr>)"
  apply (simp add: update_tab_def insert_search_result_def gtk_text_buffer_delete_all_def)
  apply (simp add: append_linky_text_buffer_def printf_i_3 printf_i_5 Let_def)
  apply (simp add: gtk_text_buffer_insert_at_end_def gtk_text_buffer_get_end_offset_def)
  apply (simp add: add_link_def gtk_text_buffer_get_iter_at_offset_def)
  apply (simp add: gtk_text_buffer_apply_tag_def)
  done

subsection \<open>The title of a tab\<close>

text \<open>
  Claim C8, as stated: the title is "All", "Rack R", "Rack R, Chassis C",
  "Rack R, Chassis C, Valve V" and "(Unknown)". The format strings of the code put a colon
  after "Chassis" in the title of a CHASSIS tab and after "Valve" in the title of a VALVE
  tab: the title of CHASSIS(1,2) is "Rack 1, Chassis: 2", not "Rack 1, Chassis 2", and the
  title of VALVE(1,2,3) is "Rack 1, Chassis 2, Valve: 3", not "Rack 1, Chassis 2, Valve 3".
\<close>

theorem page_title_counterexample:
  "page_title \<lparr>type = CHASSIS, rack_num = 1, chassis_num = 2, valve_num = 0\<rparr>
     = ''Rack 1, Chassis: 2''
   \<and> page_title \<lparr>type = CHASSIS, rack_num = 1, chassis_num = 2, valve_num = 0\<rparr>
     \<noteq> ''Rack 1, Chassis 2''
   \<and> page_title \<lparr>type = VALVE, rack_num = 1, chassis_num = 2, valve_num = 3\<rparr>
     = ''Rack 1, Chassis 2, Valve: 3''
   \<and> page_title \<lparr>type = VALVE, rack_num = 1, chassis_num = 2, valve_num = 3\<rparr>
     \<noteq> ''Rack 1, Chassis 2, Valve 3''"
  by (simp add: page_title_def printf_eval)

text \<open>
  Claim C8, amended: the title is "All" for ALL, "Rack R" for RACK, "Rack R, Chassis: C" for
  CHASSIS, "Rack R, Chassis C, Valve: V" for VALVE and "(Unknown)" for any other tag, where
  R, C and V are the signed decimal renderings of the fields.
\<close>

theorem page_title_format:
  "page_title \<lparr>type = ALL_T, rack_num = r, chassis_num = c, valve_num = v\<rparr> = ''All''
   \<and> page_title \<lparr>type = RACK, rack_num = r, chassis_num = c, valve_num = v\<rparr>
        = ''Rack '' @ printf_i r
   \<and> page_title \<lparr>type = CHASSIS, rack_num = r, chassis_num = c, valve_num = v\<rparr>
        = ''Rack '' @ printf_i r @ '', Chassis: '' @ printf_i c
   \<and> page_title \<lparr>type = VALVE, rack_num = r, chassis_num = c, valve_num = v\<rparr>
        = ''Rack '' @ printf_i r @ '', Chassis '' @ printf_i c @ '', Valve: '' @ printf_i v
   \<and> page_title \<lparr>type = OTHER n, rack_num = r, chassis_num = c, valve_num = v\<rparr> = ''(Unknown)''"
  by (simp add: page_title_def)

subsection \<open>The example states are reachable\<close>

lemmas demo_defs = no_errors_def zero_block_def zero_mem_def empty_tab_def rack_3_def
  chassis_3_5_def valve_3_5_1_def window_def one_tab_def two_tabs_def three_tabs_def

lemmas show_eval = edsac_error_notebook_show_page_def add_new_page_to_notebook_def
  new_linky_buffer_def update_tab_def gtk_text_buffer_delete_all_def gtk_text_buffer_new_def
  gtk_text_buffer_apply_tag_def gtk_text_buffer_get_end_offset_def
  gtk_notebook_append_page_def gtk_notebook_set_current_page_def
  open_tabs_list_compare_by_id_def open_tabs_list_compare_by_desc_def clickable_compare_def
  local_linky_buffer_def Let_def

lemma init_one_tab:
  "edsac_error_notebook_instance_init no_errors zero_mem zero_block False
    = Inr (one_tab\<lparr>parent_instance := (window 1 0)\<lparr>in_toplevel := False\<rparr>\<rparr>)"
  by (simp add: edsac_error_notebook_instance_init_def gtk_notebook_new_def show_eval demo_defs)

lemma show_rack_3:
  "edsac_error_notebook_show_page no_errors zero_mem (Some one_tab) (Some rack_3) = Inr two_tabs"
  by (simp add: show_eval demo_defs)

lemma show_chassis_3_5:
  "edsac_error_notebook_show_page no_errors zero_mem (Some two_tabs) (Some chassis_3_5) = Inr three_tabs"
  by (simp add: show_eval demo_defs)

lemma reachable_three_tabs: "reachable three_tabs"
proof -
  have "reachable (one_tab\<lparr>parent_instance := (window 1 0)\<lparr>in_toplevel := False\<rparr>\<rparr>)"
    using init_one_tab by (rule reachable.init)
  from reachable.packed [OF this, of True] have "reachable one_tab"
    by (simp add: one_tab_def window_def)
  from this show_rack_3 have "reachable two_tabs" by (rule reachable.shown)
  from this show_chassis_3_5 show ?thesis by (rule reachable.shown)
qed

subsection \<open>Contiguity of the page numbers\<close>

lemma page_ids_Some:
  assumes "open_tabs_list s = map Some ts"
  shows "page_ids s = map page_id ts"
proof -
  have "[page_id t. Some t \<leftarrow> map Some ts] = map page_id ts"
    by (induction ts) simp_all
  with assms show ?thesis by (simp add: page_ids_def)
qed

text \<open>
  Claim C3. After any sequence of show-page and close operations from the initial object
  with its one tab (and of updates and outside events), the page numbers held by the entries
  of the open-tabs list are exactly \<open>0, \<dots>, n - 1\<close> for the \<open>n\<close> entries of the list, as a
  multiset, without duplicates, and the list is sorted ascending by page number.
\<close>

theorem reachable_page_ids:
  "reachable s \<Longrightarrow>
     length (page_ids s) = length (open_tabs_list s)
     \<and> mset (page_ids s) = mset_set {0..<int (length (open_tabs_list s))}
     \<and> distinct (page_ids s)
     \<and> sorted (page_ids s)
     \<and> page_ids s = map int [0..<length (open_tabs_list s)]"
proof -
  assume "reachable s"
  then have "contiguous s" by (rule reachable_contiguous)
  then obtain ts where ts: "open_tabs_list s = map Some ts"
    "map page_id ts = map int [0..<length ts]"
    by (rule contiguousD)
  let ?n = "length (open_tabs_list s)"
  from ts have ids: "page_ids s = map int [0..<?n]"
    by (simp add: page_ids_Some)
  have d: "distinct (map int [0..<?n])"
    by (simp add: distinct_map)
  have "set (map int [0..<?n]) = {0..<int ?n}"
    by (simp add: image_int_atLeastLessThan)
  with d have "mset (map int [0..<?n]) = mset_set {0..<int ?n}"
    by (metis mset_set_set)
  moreover have "sorted (map int [0..<?n])"
    by (simp add: sorted_map)
  ultimately show ?thesis using ids d by simp
qed

theorem reachable_page_ids_witness:
  "reachable three_tabs \<and> page_ids three_tabs = [0, 1, 2]"
proof -
  have len: "length (open_tabs_list three_tabs) = 3"
    by (simp add: three_tabs_def)
  from reachable_page_ids [OF reachable_three_tabs]
  have "page_ids three_tabs = map int [0..<3]"
    unfolding len by blast
  with reachable_three_tabs show ?thesis by (simp add: numeral_3_eq_3)
qed

subsection \<open>Closing a tab renumbers the later ones\<close>

text \<open>
  Claim C4. In a state with contiguous page numbers, pressing the close button of the open
  page \<open>k\<close> succeeds (the notebook having another tab or sitting in a top-level window) and
  leaves the list with the entries before position \<open>k\<close>, which are those of the page numbers
  below \<open>k\<close>, unchanged in every field, without the entry of page \<open>k\<close>, and with the later
  entries, those of the page numbers above \<open>k\<close>, changed only in their page number, which is
  one less.
\<close>

theorem close_reindexes:
  assumes "contiguous s"
    and "0 \<le> k" and "k < int (length (open_tabs_list s))"
    and "1 < length (open_tabs_list s) \<or> in_toplevel (parent_instance s)"
  shows "\<exists>s'. close_button_handler s k = Inr s'
    \<and> open_tabs_list s'
        = take (nat k) (open_tabs_list s)
          @ map (map_option dec_page_id) (drop (Suc (nat k)) (open_tabs_list s))"
proof -
  from assms(1) obtain ts where ts: "open_tabs_list s = map Some ts"
    "map page_id ts = map int [0..<length ts]" "n_pages (parent_instance s) = length ts"
    by (rule contiguousD)
  from assms(2,3) ts(1) have k: "nat k < length ts" by auto
  from assms(2,3) ts(1) have "close_button_handler s k = close_tab s (nat k)"
    by (simp add: close_button_handler_contiguous [OF ts(1,2)])
  moreover have "map Some (take (nat k) ts @ map dec_page_id (drop (Suc (nat k)) ts))
      = take (nat k) (open_tabs_list s)
          @ map (map_option dec_page_id) (drop (Suc (nat k)) (open_tabs_list s))"
    by (simp add: ts(1) take_map drop_map)
  ultimately show ?thesis
    using assms(4) ts(1)
    by (auto simp add: close_tab_contiguous(1) [OF ts k] Let_def)
qed

lemma close_rack_3:
  "close_button_handler three_tabs 1
    = Inr \<lparr>parent_instance = window 2 1,
           open_tabs_list = [Some (empty_tab zero_block 0), Some (empty_tab chassis_3_5 1)]\<rparr>"
  by (simp add: close_button_handler_def close_tab_def open_tabs_list_compare_by_id_def
        open_tabs_list_dec_id_def gtk_notebook_remove_page_def local_linky_buffer_def
        three_tabs_def window_def empty_tab_def Let_def)

lemma contiguous_three_tabs: "contiguous three_tabs"
  using reachable_three_tabs by (rule reachable_contiguous)

theorem close_reindexes_witness:
  "contiguous three_tabs \<and> (0::int) \<le> 1 \<and> (1::int) < int (length (open_tabs_list three_tabs))
   \<and> (1 < length (open_tabs_list three_tabs) \<or> in_toplevel (parent_instance three_tabs))
   \<and> close_button_handler three_tabs 1
      = Inr \<lparr>parent_instance = window 2 1,
             open_tabs_list = [Some (empty_tab zero_block 0), Some (empty_tab chassis_3_5 1)]\<rparr>
   \<and> [Some (empty_tab zero_block 0), Some (empty_tab chassis_3_5 1)]
      = take 1 (open_tabs_list three_tabs)
        @ map (map_option dec_page_id) (drop 2 (open_tabs_list three_tabs))"
proof -
  have pre: "(0::int) \<le> 1" "(1::int) < int (length (open_tabs_list three_tabs))"
    "1 < length (open_tabs_list three_tabs) \<or> in_toplevel (parent_instance three_tabs)"
    by (simp_all add: three_tabs_def)
  from close_reindexes [OF contiguous_three_tabs pre]
  have "[Some (empty_tab zero_block 0), Some (empty_tab chassis_3_5 1)]
      = take 1 (open_tabs_list three_tabs)
        @ map (map_option dec_page_id) (drop 2 (open_tabs_list three_tabs))"
    by (simp add: close_rack_3 numeral_2_eq_2)
  with contiguous_three_tabs pre close_rack_3 show ?thesis by simp
qed

subsection \<open>Closing the last tab\<close>

text \<open>
  Claim C6. In a state with contiguous page numbers, pressing the close button of the only
  tab of a notebook that sits in a top-level window closes that window, and the list is
  empty; without a top-level window the process exits. Pressing the close button of a tab
  while other tabs remain leaves the window as it was and the list non-empty.
\<close>

theorem close_last_tab_closes_window:
  assumes "contiguous s"
    and "0 \<le> k" and "k < int (length (open_tabs_list s))"
  shows "(length (open_tabs_list s) = 1 \<and> in_toplevel (parent_instance s) \<longrightarrow>
           (\<exists>s'. close_button_handler s k = Inr s' \<and> window_closed (parent_instance s')
                 \<and> open_tabs_list s' = []))
       \<and> (length (open_tabs_list s) = 1 \<and> \<not> in_toplevel (parent_instance s) \<longrightarrow>
           close_button_handler s k = Inl ExitFailure)
       \<and> (1 < length (open_tabs_list s) \<longrightarrow>
           (\<exists>s'. close_button_handler s k = Inr s'
                 \<and> window_closed (parent_instance s') = window_closed (parent_instance s)
                 \<and> open_tabs_list s' \<noteq> []))"
proof -
  from assms(1) obtain ts where ts: "open_tabs_list s = map Some ts"
    "map page_id ts = map int [0..<length ts]" "n_pages (parent_instance s) = length ts"
    by (rule contiguousD)
  from assms(2,3) ts(1) have k: "nat k < length ts" by auto
  from assms(2,3) ts(1) have handler: "close_button_handler s k = close_tab s (nat k)"
    by (simp add: close_button_handler_contiguous [OF ts(1,2)])
  let ?nb = "gtk_notebook_remove_page (parent_instance s) (int (nat k))"
  let ?tabs = "map Some (take (nat k) ts @ map dec_page_id (drop (Suc (nat k)) ts))"
  note closed = close_tab_contiguous [OF ts k]
  have one: "?tabs = []" if "length ts = 1"
    using k that by simp
  have more: "?tabs \<noteq> []" if "1 < length ts"
    using k that by (cases "nat k") auto
  have "\<exists>s'. close_button_handler s k = Inr s' \<and> window_closed (parent_instance s')
          \<and> open_tabs_list s' = []"
    if "length ts = 1" "in_toplevel (parent_instance s)"
  proof -
    from that have "close_button_handler s k
        = Inr \<lparr>parent_instance = gtk_window_close ?nb, open_tabs_list = ?tabs\<rparr>"
      by (simp add: handler closed(1) Let_def)
    with one [OF that(1)] show ?thesis
      by (simp add: gtk_window_close_def)
  qed
  moreover have "close_button_handler s k = Inl ExitFailure"
    if "length ts = 1" "\<not> in_toplevel (parent_instance s)"
    using that by (simp add: handler closed(1) Let_def)
  moreover have "\<exists>s'. close_button_handler s k = Inr s'
          \<and> window_closed (parent_instance s') = window_closed (parent_instance s)
          \<and> open_tabs_list s' \<noteq> []"
    if "1 < length ts"
  proof -
    from that have "close_button_handler s k = Inr \<lparr>parent_instance = ?nb, open_tabs_list = ?tabs\<rparr>"
      by (simp add: handler closed(1) Let_def)
    with more [OF that] closed(4) show ?thesis
      by simp
  qed
  ultimately show ?thesis
    by (simp add: ts(1))
qed

lemma close_one_tab:
  "close_button_handler one_tab 0
    = Inr \<lparr>parent_instance = (window 0 (-1))\<lparr>window_closed := True\<rparr>, open_tabs_list = []\<rparr>"
  by (simp add: close_button_handler_def close_tab_def open_tabs_list_compare_by_id_def
        open_tabs_list_dec_id_def gtk_notebook_remove_page_def local_linky_buffer_def
        gtk_window_close_def one_tab_def window_def empty_tab_def Let_def)

lemma reachable_one_tab: "reachable one_tab"
proof -
  have "reachable (one_tab\<lparr>parent_instance := (window 1 0)\<lparr>in_toplevel := False\<rparr>\<rparr>)"
    using init_one_tab by (rule reachable.init)
  from reachable.packed [OF this, of True] show "reachable one_tab"
    by (simp add: one_tab_def window_def)
qed

theorem close_last_tab_closes_window_witness:
  "contiguous one_tab \<and> length (open_tabs_list one_tab) = 1 \<and> in_toplevel (parent_instance one_tab)
   \<and> close_button_handler one_tab 0
       = Inr \<lparr>parent_instance = (window 0 (-1))\<lparr>window_closed := True\<rparr>, open_tabs_list = []\<rparr>
   \<and> contiguous three_tabs \<and> 1 < length (open_tabs_list three_tabs)
   \<and> close_button_handler three_tabs 1
       = Inr \<lparr>parent_instance = window 2 1,
              open_tabs_list = [Some (empty_tab zero_block 0), Some (empty_tab chassis_3_5 1)]\<rparr>
   \<and> \<not> window_closed (parent_instance three_tabs) \<and> \<not> window_closed (window 2 1)"
proof -
  have c1: "contiguous one_tab"
    using reachable_one_tab by (rule reachable_contiguous)
  have p1: "(0::int) \<le> 0" "0 < int (length (open_tabs_list one_tab))"
    "length (open_tabs_list one_tab) = 1" "in_toplevel (parent_instance one_tab)"
    by (simp_all add: one_tab_def window_def)
  have p3: "(0::int) \<le> 1" "1 < int (length (open_tabs_list three_tabs))"
    "1 < length (open_tabs_list three_tabs)" "\<not> window_closed (parent_instance three_tabs)"
    "\<not> window_closed (window 2 1)"
    by (simp_all add: three_tabs_def window_def)
  from close_last_tab_closes_window [OF c1 p1(1,2)] p1(3,4)
  have "\<exists>s'. close_button_handler one_tab 0 = Inr s' \<and> window_closed (parent_instance s')
              \<and> open_tabs_list s' = []"
    by blast
  moreover from close_last_tab_closes_window [OF contiguous_three_tabs p3(1,2)] p3(3)
  have "\<exists>s'. close_button_handler three_tabs 1 = Inr s'
        \<and> window_closed (parent_instance s') = window_closed (parent_instance three_tabs)
        \<and> open_tabs_list s' \<noteq> []"
    by blast
  ultimately show ?thesis
    using c1 p1 p3 contiguous_three_tabs close_one_tab close_rack_3 by simp
qed

subsection \<open>Closing the tabs of a node\<close>

lemmas close_eval = close_tab_def open_tabs_list_dec_id_def gtk_notebook_remove_page_def
  gtk_window_close_def Let_def

text \<open>
  Claim C2, as stated: only the tabs whose description is CHASSIS(r,c) are closed, and a tab
  with another tag stays open even when its rack and chassis fields are r and c. The loop
  never looks at the tag. With the first tab and the tab of VALVE(3,5,1) open, closing the
  node (3,5) closes the VALVE tab; and with the first tab, whose description holds the tag
  ALL over zeroed memory, and the tab of RACK(3) open, closing the node (0,0) closes the
  first tab.
\<close>

theorem close_node_counterexample:
  "type valve_3_5_1 = VALVE \<and> Some (empty_tab valve_3_5_1 1) \<in> set (open_tabs_list valve_tabs)
   \<and> edsac_error_notebook_close_node (Some valve_tabs) 3 5
       = Inr (Some \<lparr>parent_instance = window 1 0,
                    open_tabs_list = [Some (empty_tab zero_block 0)]\<rparr>)
   \<and> type zero_block = ALL_T \<and> Some (empty_tab zero_block 0) \<in> set (open_tabs_list two_tabs)
   \<and> edsac_error_notebook_close_node (Some two_tabs) 0 0
       = Inr (Some \<lparr>parent_instance = window 1 0,
                    open_tabs_list = [Some (empty_tab rack_3 0)]\<rparr>)"
  by (simp add: edsac_error_notebook_close_node_def close_node_loop.simps close_eval
        valve_tabs_def two_tabs_def empty_tab_def window_def valve_3_5_1_def rack_3_def
        zero_block_def)

text \<open>
  Claim C2, amended. When no cell of the list is NULL and the notebook sits in a top-level
  window, closing the node (r,c) returns, opens nothing and keeps the order of the tabs;
  afterwards no tab is left whose description is CHASSIS or VALVE with rack r and chassis c
  (the VALVE tabs of the node are closed with its CHASSIS tab), and every tab whose
  description has another rack or another chassis field is still open.
\<close>

theorem close_node_closes_node_tabs:
  assumes "open_tabs_list s = map Some ts" and "in_toplevel (parent_instance s)"
  shows "\<exists>s' ts'. edsac_error_notebook_close_node (Some s) r c = Inr (Some s')
    \<and> open_tabs_list s' = map Some ts'
    \<and> subseq (map description ts') (map description ts)
    \<and> (\<forall>d \<in> set (map description ts'). type d = CHASSIS \<or> type d = VALVE \<longrightarrow> \<not> in_node r c d)
    \<and> filter (\<lambda>d. \<not> in_node r c d) (map description ts')
        = filter (\<lambda>d. \<not> in_node r c d) (map description ts)"
proof -
  from close_node_loop_result [OF assms, of 0 r c]
  obtain s' ts' where loop: "close_node_loop s r c 0 = Inr s'"
    and tabs': "open_tabs_list s' = map Some ts'"
    and descs: "map description ts' = filter (\<lambda>d. \<not> in_node r c d) (map description ts)"
    by auto
  from loop have "edsac_error_notebook_close_node (Some s) r c = Inr (Some s')"
    by (simp add: edsac_error_notebook_close_node_def)
  moreover have "subseq (map description ts') (map description ts)"
    by (simp only: descs subseq_filter_left)
  moreover have "\<forall>d \<in> set (map description ts'). type d = CHASSIS \<or> type d = VALVE \<longrightarrow> \<not> in_node r c d"
    by (simp only: descs) simp
  moreover have "filter (\<lambda>d. \<not> in_node r c d) (map description ts')
        = filter (\<lambda>d. \<not> in_node r c d) (map description ts)"
    by (simp only: descs filter_filter) simp
  ultimately show ?thesis using tabs' by blast
qed

theorem close_node_closes_node_tabs_witness:
  "open_tabs_list valve_tabs = map Some [empty_tab zero_block 0, empty_tab valve_3_5_1 1]
   \<and> in_toplevel (parent_instance valve_tabs)
   \<and> (\<exists>s' ts'. edsac_error_notebook_close_node (Some valve_tabs) 3 5 = Inr (Some s')
       \<and> open_tabs_list s' = map Some ts'
       \<and> (\<forall>d \<in> set (map description ts'). type d = CHASSIS \<or> type d = VALVE \<longrightarrow> \<not> in_node 3 5 d)
       \<and> filter (\<lambda>d. \<not> in_node 3 5 d) (map description ts') = [zero_block])"
proof -
  have pre: "open_tabs_list valve_tabs = map Some [empty_tab zero_block 0, empty_tab valve_3_5_1 1]"
    "in_toplevel (parent_instance valve_tabs)"
    by (simp_all add: valve_tabs_def window_def)
  have f: "filter (\<lambda>d. \<not> in_node 3 5 d)
        (map description [empty_tab zero_block 0, empty_tab valve_3_5_1 1]) = [zero_block]"
    by (simp add: in_node_def empty_tab_def zero_block_def valve_3_5_1_def)
  from close_node_closes_node_tabs [OF pre, of 3 5]
  have "\<exists>s' ts'. edsac_error_notebook_close_node (Some valve_tabs) 3 5 = Inr (Some s')
       \<and> open_tabs_list s' = map Some ts'
       \<and> (\<forall>d \<in> set (map description ts'). type d = CHASSIS \<or> type d = VALVE \<longrightarrow> \<not> in_node 3 5 d)
       \<and> filter (\<lambda>d. \<not> in_node 3 5 d) (map description ts') = [zero_block]"
    unfolding f by blast
  with pre show ?thesis by blast
qed

subsection \<open>NULL pointers in closing a node\<close>

lemma close_node_loop_null_cell:
  assumes "open_tabs_list s = map Some pre @ None # post"
    and "\<forall>t \<in> set pre. \<not> in_node r c (description t)"
    and "item \<le> length pre"
  shows "close_node_loop s r c item = Inr s"
  using assms(3)
proof (induction "length pre - item" arbitrary: item)
  case 0
  with assms(1) have "open_tabs_list s ! item = None" and "\<not> length (open_tabs_list s) \<le> item"
    by (simp_all add: nth_append)
  then show ?case
    by (simp add: close_node_loop.simps [of s r c item])
next
  case (Suc n)
  then have item: "item < length pre" by simp
  with assms(1) have cell: "open_tabs_list s ! item = Some (pre ! item)"
    and inside: "\<not> length (open_tabs_list s) \<le> item"
    by (simp_all add: nth_append)
  from item assms(2) have "\<not> in_node r c (description (pre ! item))"
    by simp
  with cell inside have "close_node_loop s r c item = close_node_loop s r c (Suc item)"
    by (simp add: close_node_loop.simps [of s r c item] in_node_def)
  moreover from Suc.hyps(2) item have "close_node_loop s r c (Suc item) = Inr s"
    by (intro Suc.hyps(1)) simp_all
  ultimately show ?case by simp
qed

text \<open>
  Claim C10. Closing a node on the NULL notebook returns without effect and without
  stopping the program; and when the scan of the open-tabs list comes to a NULL cell, which
  it does when no tab before that cell belongs to the node, the call returns there, the
  object unchanged, without stopping the program.
\<close>

theorem close_node_null:
  "edsac_error_notebook_close_node None r c = Inr None
   \<and> (open_tabs_list s = map Some pre @ None # post
        \<and> (\<forall>t \<in> set pre. \<not> in_node r c (description t))
      \<longrightarrow> edsac_error_notebook_close_node (Some s) r c = Inr (Some s))"
  by (simp add: edsac_error_notebook_close_node_def close_node_loop_null_cell)

theorem close_node_null_witness:
  "edsac_error_notebook_close_node None 3 5 = Inr None
   \<and> open_tabs_list null_cell = map Some [empty_tab zero_block 0] @ None # []
   \<and> \<not> in_node 3 5 (description (empty_tab zero_block 0))
   \<and> edsac_error_notebook_close_node (Some null_cell) 3 5 = Inr (Some null_cell)"
proof -
  have cells: "open_tabs_list null_cell = map Some [empty_tab zero_block 0] @ None # []"
    and other: "\<not> in_node 3 5 (description (empty_tab zero_block 0))"
    by (simp_all add: null_cell_def in_node_def empty_tab_def zero_block_def)
  from other have "\<forall>t \<in> set [empty_tab zero_block 0]. \<not> in_node 3 5 (description t)"
    by simp
  with cells close_node_null [of 3 5 null_cell "[empty_tab zero_block 0]" "[]"] other
  show ?thesis by blast
qed

text \<open>A NULL cell behind a tab of the node is not reached by the scan: closing the tab
  decrements the page numbers of the cells behind it, and the assertion of
  \<^verbatim>\<open>open_tabs_list_dec_id\<close> fails on the NULL cell.\<close>

lemma close_node_null_behind_match:
  assumes "open_tabs_list s = [Some t, None]" and "in_node r c (description t)"
  shows "edsac_error_notebook_close_node (Some s) r c = Inl AssertionFailed"
  using assms
  by (simp add: edsac_error_notebook_close_node_def close_node_loop.simps [of s r c 0]
        close_tab_def open_tabs_list_dec_id_def in_node_def)

subsection \<open>The error count of the current page\<close>

lemma find_first:
  "\<exists>t \<in> set ts. P t \<Longrightarrow> List.find P ts = Some (ts ! length (takeWhile (\<lambda>t. \<not> P t) ts))"
  by (induction ts) auto

text \<open>
  Claim C9. With no NULL cell in the list and a count function that answers numbers of
  records (never a negative number), the error count is \<open>-1\<close> exactly when there is no current
  page or no entry of the list has the number of the current page; otherwise it is what
  \<^verbatim>\<open>count_clickable\<close> answers for the description of the first entry with the number of
  the current page, whatever the buffer of that entry holds.
\<close>

theorem get_error_count_result:
  assumes "open_tabs_list s = map Some ts" and "\<forall>d. 0 \<le> count_clickable d"
  shows "(edsac_error_notebook_get_error_count count_clickable (Some s) = Inr (-1)
            \<longleftrightarrow> current_page (parent_instance s) = -1
                \<or> (\<forall>t \<in> set ts. page_id t \<noteq> current_page (parent_instance s)))
       \<and> (current_page (parent_instance s) \<noteq> -1
            \<and> List.find (\<lambda>t. page_id t = current_page (parent_instance s)) ts = Some t
          \<longrightarrow> edsac_error_notebook_get_error_count count_clickable (Some s)
                = Inr (count_clickable (description t)))"
proof -
  let ?p = "current_page (parent_instance s)"
  let ?i = "length (takeWhile (\<lambda>t. page_id t \<noteq> ?p) ts)"
  have found: "g_slist_find_custom (map Some ts) ?p open_tabs_list_search_by_id
      = Inr (if \<exists>t \<in> set ts. page_id t = ?p then Some ?i else None)"
    by (rule find_custom_Some_result) (rule search_by_id_Some)
  show ?thesis
  proof (cases "?p = -1 \<or> (\<forall>t \<in> set ts. page_id t \<noteq> ?p)")
    case True
    then have "edsac_error_notebook_get_error_count count_clickable (Some s) = Inr (-1)"
      by (auto simp add: edsac_error_notebook_get_error_count_def assms(1) found Let_def)
    moreover from True have "List.find (\<lambda>t. page_id t = ?p) ts \<noteq> Some t" if "?p \<noteq> -1"
      using that by (auto simp add: find_Some_iff)
    ultimately show ?thesis using True by auto
  next
    case False
    then have ex: "\<exists>t \<in> set ts. page_id t = ?p" and cur: "?p \<noteq> -1" by auto
    from ex have i: "?i < length ts"
      by (intro length_takeWhile_less) simp
    from ex have first: "List.find (\<lambda>t. page_id t = ?p) ts = Some (ts ! ?i)"
      by (rule find_first)
    from cur ex i have "edsac_error_notebook_get_error_count count_clickable (Some s)
        = Inr (count_clickable (description (ts ! ?i)))"
      by (simp add: edsac_error_notebook_get_error_count_def assms(1) found Let_def)
    moreover from assms(2) have "count_clickable (description (ts ! ?i)) \<noteq> -1"
      by (metis neg_0_le_iff_le not_one_le_zero)
    ultimately show ?thesis using False first by auto
  qed
qed

theorem get_error_count_result_witness:
  "open_tabs_list three_tabs
     = map Some [empty_tab zero_block 0, empty_tab rack_3 1, empty_tab chassis_3_5 2]
   \<and> (\<forall>d. 0 \<le> seven_errors d)
   \<and> current_page (parent_instance three_tabs) \<noteq> -1
   \<and> List.find (\<lambda>t. page_id t = current_page (parent_instance three_tabs))
        [empty_tab zero_block 0, empty_tab rack_3 1, empty_tab chassis_3_5 2]
      = Some (empty_tab chassis_3_5 2)
   \<and> edsac_error_notebook_get_error_count seven_errors (Some three_tabs) = Inr 7
   \<and> contents (buffer (empty_tab chassis_3_5 2)) = []"
proof -
  have pre: "open_tabs_list three_tabs
     = map Some [empty_tab zero_block 0, empty_tab rack_3 1, empty_tab chassis_3_5 2]"
    "\<forall>d. 0 \<le> seven_errors d"
    by (simp_all add: three_tabs_def seven_errors_def)
  have cur: "current_page (parent_instance three_tabs) \<noteq> -1
      \<and> List.find (\<lambda>t. page_id t = current_page (parent_instance three_tabs))
        [empty_tab zero_block 0, empty_tab rack_3 1, empty_tab chassis_3_5 2]
      = Some (empty_tab chassis_3_5 2)"
    by (simp add: three_tabs_def window_def empty_tab_def)
  with get_error_count_result [OF pre, of "empty_tab chassis_3_5 2"]
  have "edsac_error_notebook_get_error_count seven_errors (Some three_tabs)
      = Inr (seven_errors (description (empty_tab chassis_3_5 2)))"
    by blast
  with pre cur show ?thesis
    by (simp add: seven_errors_def empty_tab_def gtk_text_buffer_new_def)
qed

subsection \<open>Showing a page twice\<close>

lemma clickable_compare_refl:
  assumes "type d = ALL_T \<or> type d = RACK \<or> type d = CHASSIS \<or> type d = VALVE"
  shows "clickable_compare (Some d) (Some d) = Inr True"
  using assms by (auto simp add: clickable_compare_def)

lemma show_page_again:
  assumes tabs: "open_tabs_list s = map Some ts"
    and ids: "map page_id ts = map int [0..<length ts]"
    and pages: "n_pages (parent_instance s) = length ts"
    and found: "\<exists>t \<in> set ts. same_page d t"
    and cur: "current_page (parent_instance s) = int (length (takeWhile (\<lambda>t. \<not> same_page d t) ts))"
  shows "show_page_repeatedly envs d s = Inr s"
proof (induction envs)
  case Nil
  show ?case by simp
next
  case (Cons env envs)
  have "edsac_error_notebook_show_page (fst env) (snd env) (Some s) (Some d) = Inr s"
    by (simp add: show_page_found [OF tabs ids pages found] cur [symmetric])
  with Cons.IH show ?case by simp
qed

text \<open>
  Claim C5. In a state with contiguous page numbers, showing the page of a Clickable \<open>d\<close>
  succeeds. If an entry of the list has a description that \<^verbatim>\<open>clickable_compare\<close> accepts
  for \<open>d\<close>, the list and the number of pages are unchanged and the page of such an entry
  becomes the current page; otherwise the list gets exactly one new entry, at its end, for
  \<open>d\<close>, with the former length of the list as its page number, which becomes the current
  page. When the tag of \<open>d\<close> is one of ALL, RACK, CHASSIS, VALVE, any sequence of further
  calls for \<open>d\<close> leaves the state after the first call as it is: the list grows by at most
  one entry over the whole sequence, and every call shows the same page.
\<close>

theorem show_page_dedup:
  assumes "contiguous s"
  shows "\<exists>s1. edsac_error_notebook_show_page search_clickable mem (Some s) (Some d) = Inr s1
    \<and> ((\<exists>t. Some t \<in> set (open_tabs_list s) \<and> same_page d t) \<longrightarrow>
          open_tabs_list s1 = open_tabs_list s
          \<and> n_pages (parent_instance s1) = n_pages (parent_instance s)
          \<and> (\<exists>t. Some t \<in> set (open_tabs_list s) \<and> same_page d t
                \<and> current_page (parent_instance s1) = page_id t))
    \<and> (\<not> (\<exists>t. Some t \<in> set (open_tabs_list s) \<and> same_page d t) \<longrightarrow>
          (\<exists>lb. open_tabs_list s1 = open_tabs_list s @ [Some lb]
                \<and> page_id lb = int (length (open_tabs_list s)) \<and> description lb = d
                \<and> current_page (parent_instance s1) = page_id lb))
    \<and> length (open_tabs_list s1) \<le> length (open_tabs_list s) + 1
    \<and> (type d = ALL_T \<or> type d = RACK \<or> type d = CHASSIS \<or> type d = VALVE \<longrightarrow>
          (\<forall>envs. show_page_repeatedly envs d s1 = Inr s1))"
proof -
  from assms obtain ts where ts: "open_tabs_list s = map Some ts"
    "map page_id ts = map int [0..<length ts]" "n_pages (parent_instance s) = length ts"
    by (rule contiguousD)
  have set_ts: "(\<exists>t. Some t \<in> set (open_tabs_list s) \<and> same_page d t) \<longleftrightarrow> (\<exists>t \<in> set ts. same_page d t)"
    by (auto simp add: ts(1))
  let ?i = "length (takeWhile (\<lambda>t. \<not> same_page d t) ts)"
  show ?thesis
  proof (cases "\<exists>t \<in> set ts. same_page d t")
    case True
    let ?s1 = "s\<lparr>parent_instance := (parent_instance s)\<lparr>current_page := int ?i\<rparr>\<rparr>"
    have shown: "edsac_error_notebook_show_page search_clickable mem (Some s) (Some d) = Inr ?s1"
      by (rule show_page_found [OF ts True])
    from True have i: "?i < length ts"
      by (intro length_takeWhile_less) simp
    then have "same_page d (ts ! ?i)"
      using nth_length_takeWhile [of "\<lambda>t. \<not> same_page d t" ts] by simp
    with i have "Some (ts ! ?i) \<in> set (open_tabs_list s) \<and> same_page d (ts ! ?i)
        \<and> current_page (parent_instance ?s1) = page_id (ts ! ?i)"
      by (simp add: ts(1) ids_nth [OF ts(2)])
    then have focus: "\<exists>t. Some t \<in> set (open_tabs_list s) \<and> same_page d t
        \<and> current_page (parent_instance ?s1) = page_id t"
      by (rule exI)
    have again: "show_page_repeatedly envs d ?s1 = Inr ?s1" for envs
      by (rule show_page_again [of ?s1 ts]) (simp_all add: ts True)
    from shown focus again True show ?thesis
      by (simp add: set_ts)
  next
    case False
    from show_page_new [OF ts False, of search_clickable mem]
    obtain s1 lb where shown: "edsac_error_notebook_show_page search_clickable mem (Some s) (Some d) = Inr s1"
      and s1: "open_tabs_list s1 = map Some (ts @ [lb])" "page_id lb = int (length ts)"
        "description lb = d"
        "parent_instance s1 = (parent_instance s)\<lparr>n_pages := Suc (length ts),
                                                  current_page := int (length ts)\<rparr>"
      by blast
    have again: "show_page_repeatedly envs d s1 = Inr s1"
      if known: "type d = ALL_T \<or> type d = RACK \<or> type d = CHASSIS \<or> type d = VALVE" for envs
    proof (rule show_page_again [of s1 "ts @ [lb]"])
      show "open_tabs_list s1 = map Some (ts @ [lb])" by (rule s1(1))
      show "map page_id (ts @ [lb]) = map int [0..<length (ts @ [lb])]"
        using ts(2) s1(2) by simp
      show "n_pages (parent_instance s1) = length (ts @ [lb])"
        by (simp add: s1(4))
      from known have same: "same_page d lb"
        by (simp add: same_page_def s1(3) clickable_compare_refl)
      then show "\<exists>t \<in> set (ts @ [lb]). same_page d t" by simp
      from False same have "takeWhile (\<lambda>t. \<not> same_page d t) (ts @ [lb]) = ts"
        by simp
      then show "current_page (parent_instance s1)
          = int (length (takeWhile (\<lambda>t. \<not> same_page d t) (ts @ [lb])))"
        by (simp add: s1(4))
    qed
    have "\<exists>lb. open_tabs_list s1 = open_tabs_list s @ [Some lb]
        \<and> page_id lb = int (length (open_tabs_list s)) \<and> description lb = d
        \<and> current_page (parent_instance s1) = page_id lb"
      using s1 by (intro exI [of _ lb]) (simp add: ts(1))
    moreover from False have "\<not> (\<exists>t. Some t \<in> set (open_tabs_list s) \<and> same_page d t)"
      by (simp only: set_ts) simp
    moreover from s1(1) have "length (open_tabs_list s1) \<le> length (open_tabs_list s) + 1"
      by (simp add: ts(1))
    ultimately show ?thesis
      using shown again by auto
  qed
qed

lemma contiguous_one_tab: "contiguous one_tab"
  using reachable_one_tab by (rule reachable_contiguous)

theorem show_page_dedup_witness:
  "contiguous one_tab
   \<and> \<not> (\<exists>t. Some t \<in> set (open_tabs_list one_tab) \<and> same_page rack_3 t)
   \<and> type rack_3 = RACK
   \<and> edsac_error_notebook_show_page no_errors zero_mem (Some one_tab) (Some rack_3) = Inr two_tabs
   \<and> open_tabs_list two_tabs = open_tabs_list one_tab @ [Some (empty_tab rack_3 1)]
   \<and> show_page_repeatedly [(no_errors, zero_mem), (no_errors, zero_mem)] rack_3 two_tabs
       = Inr two_tabs"
proof -
  have new: "\<not> (\<exists>t. Some t \<in> set (open_tabs_list one_tab) \<and> same_page rack_3 t)"
    and tag: "type rack_3 = RACK"
    and tabs: "open_tabs_list two_tabs = open_tabs_list one_tab @ [Some (empty_tab rack_3 1)]"
    by (simp_all add: one_tab_def two_tabs_def same_page_def clickable_compare_def empty_tab_def
          zero_block_def rack_3_def)
  from show_page_dedup [OF contiguous_one_tab, of no_errors zero_mem rack_3] tag
  have "\<forall>envs. show_page_repeatedly envs rack_3 two_tabs = Inr two_tabs"
    unfolding show_rack_3 by auto
  then have "show_page_repeatedly [(no_errors, zero_mem), (no_errors, zero_mem)] rack_3 two_tabs
       = Inr two_tabs"
    by (rule spec)
  with contiguous_one_tab new tag tabs show_rack_3 show ?thesis
    by simp
qed

text \<open>With a tag outside the four named ones \<^verbatim>\<open>clickable_compare\<close> answers false for
  a Clickable and itself, so no open tab is ever found for it.\<close>

lemma clickable_compare_other_tag:
  "type d = OTHER n \<Longrightarrow> clickable_compare (Some d) (Some d) = Inr False"
  by (simp add: clickable_compare_def)

end
